theory Spec2Isabelle
  imports Complex_Main
begin

section \<open>The RAG engine of JupiterBot (src/utils/rag\_engine.py)\<close>

text \<open>
  A shallow embedding of the class \<open>JupiterRAGEngine\<close>: the chunker, the knowledge-base
  build, the retriever, the context budgeter, the answer generator and the orchestrator.

  Conventions of the embedding.
  \<^item> A Python \<open>str\<close> is a \<open>string\<close>, one \<open>char\<close> per code point (code points below 256).
  \<^item> A Python \<open>float\<close> is a \<open>real\<close>: the claims about scores are claims about order and
    about the formula, not about rounding.
  \<^item> A Python exception is a value of type \<open>exn\<close>; a call that may raise returns
    \<open>exn + 'a\<close>, with \<open>Inl\<close> for the raise.
  \<^item> The external collaborators (the vector store, the tokenizer, the language model,
    the conversation log, the clock) are parameters of the functions that call them.
  \<^item> The configuration constants are those of \<open>class Config\<close> (src/utils/config.py).
\<close>

subsection \<open>Exceptions and configuration\<close>

datatype exn = UnboundLocalError string | Error string

definition CHUNK_SIZE :: nat where
  "CHUNK_SIZE = 1000"

definition CHUNK_OVERLAP :: nat where
  "CHUNK_OVERLAP = 200"

definition MAX_RETRIEVED_DOCS :: nat where
  "MAX_RETRIEVED_DOCS = 5"

definition DEFAULT_SIMILARITY_THRESHOLD :: real where
  "DEFAULT_SIMILARITY_THRESHOLD = 3 / 10"

subsection \<open>Strings as Python has them\<close>

text \<open>\<open>str.isspace\<close> on the code points below 256, which is what \<open>str.strip()\<close> removes.\<close>

definition isspace :: "char \<Rightarrow> bool" where
  "isspace c = (of_char c \<in> set [9, 10, 11, 12, 13, 28, 29, 30, 31, 32, 133, 160 :: nat])"

definition strip :: "string \<Rightarrow> string" where
  "strip s = rev (dropWhile isspace (rev (dropWhile isspace s)))"

text \<open>\<open>s[a:b]\<close> for non-negative \<open>a\<close> and \<open>b\<close>: out-of-range bounds are clamped, never an error.\<close>

definition slice :: "'a list \<Rightarrow> nat \<Rightarrow> nat \<Rightarrow> 'a list" where
  "slice xs a b = take (b - a) (drop a xs)"

text \<open>\<open>sep.join(parts)\<close>.\<close>

fun join :: "string \<Rightarrow> string list \<Rightarrow> string" where
  "join sep [] = []"
| "join sep [p] = p"
| "join sep (p # q # ps) = p @ sep @ join sep (q # ps)"

text \<open>
  \<open>s.split(sep)\<close> for a non-empty separator: the text is cut at the non-overlapping
  occurrences of \<open>sep\<close>, scanning from the left; \<open>cur\<close> holds the unit being read, reversed.
\<close>

function split_from :: "string \<Rightarrow> string \<Rightarrow> string \<Rightarrow> string list" where
  "split_from sep cur [] = [rev cur]"
| "split_from sep cur (c # cs) =
     (if sep \<noteq> [] \<and> take (length sep) (c # cs) = sep
      then rev cur # split_from sep [] (drop (length sep) (c # cs))
      else split_from sep (c # cur) cs)"
  by pat_completeness auto
termination
  by (relation "measure (\<lambda>(sep, cur, s). length s)") auto

definition split :: "string \<Rightarrow> string \<Rightarrow> string list" where
  "split s sep = split_from sep [] s"

text \<open>\<open>str(n)\<close> for a non-negative integer: its decimal digits.\<close>

fun str_of_nat :: "nat \<Rightarrow> string" where
  "str_of_nat n =
     (if n < 10 then [char_of (48 + n)]
      else str_of_nat (n div 10) @ [char_of (48 + n mod 10)])"

declare str_of_nat.simps [simp del]

subsection \<open>The chunker: \<open>_chunk_content\<close>\<close>

text \<open>The two-character windows that count as a sentence boundary (line 81).\<close>

definition sentence_ends :: "string list" where
  "sentence_ends = [''. '', ''! '', ''? '', ''.\<newline>'']"

text \<open>
  Lines 76 to 83: the nominal cut is \<open>start + chunk_size\<close>. When it lies inside the
  content, \<open>i\<close> runs over \<open>range(end, max(start + chunk_size - 200, start + chunk_size // 2), -1)\<close>,
  that is from \<open>end\<close> down to one above the bound, and the first \<open>i\<close> whose window
  \<open>content[i:i+2]\<close> is a sentence boundary moves the cut to \<open>i + 1\<close>.
  (\<open>start + chunk_size - 200\<close> may be negative in Python; the other argument of \<open>max\<close> is
  not, so the truncating subtraction of \<open>nat\<close> gives the same maximum.)
\<close>

definition search_bound :: "nat \<Rightarrow> nat \<Rightarrow> nat" where
  "search_bound chunk_size start = max (start + chunk_size - 200) (start + chunk_size div 2)"

definition is_boundary :: "string \<Rightarrow> nat \<Rightarrow> bool" where
  "is_boundary content i = (slice content i (i + 2) \<in> set sentence_ends)"

definition find_boundary :: "nat \<Rightarrow> string \<Rightarrow> nat \<Rightarrow> nat" where
  "find_boundary chunk_size content start =
     (let end = start + chunk_size in
      if end < length content then
        (case List.find (is_boundary content)
                (rev [Suc (search_bound chunk_size start) ..< Suc end]) of
           Some i \<Rightarrow> i + 1
         | None \<Rightarrow> end)
      else end)"

lemma find_in_set: "List.find P xs = Some x \<Longrightarrow> x \<in> set xs \<and> P x"
  by (induction xs) (auto split: if_splits)

lemma find_boundary_lower:
  assumes "0 < chunk_size"
  shows "search_bound chunk_size start < find_boundary chunk_size content start"
proof (cases "List.find (is_boundary content)
                (rev [Suc (search_bound chunk_size start) ..< Suc (start + chunk_size)])")
  case None
  then show ?thesis
    using assms by (auto simp: find_boundary_def search_bound_def Let_def)
next
  case (Some i)
  have "i \<in> set (rev [Suc (search_bound chunk_size start) ..< Suc (start + chunk_size)])"
    using find_in_set [OF Some] by blast
  then have "search_bound chunk_size start < i"
    by auto
  then show ?thesis
    using Some assms by (auto simp: find_boundary_def Let_def search_bound_def)
qed

lemma find_boundary_config_lower: "start + 801 \<le> find_boundary CHUNK_SIZE content start"
  using find_boundary_lower [of CHUNK_SIZE start content]
  by (simp add: CHUNK_SIZE_def search_bound_def)

text \<open>
  Lines 75 to 92, the \<open>while\<close> loop, with the chunk size and the overlap of \<open>Config\<close>.
  With these values the cut is at least \<open>start + 801\<close>, so \<open>end - CHUNK_OVERLAP\<close> is
  never negative and the next start is beyond the current one.
\<close>

function chunk_loop :: "string \<Rightarrow> nat \<Rightarrow> string list \<Rightarrow> string list" where
  "chunk_loop content start chunks =
     (if start < length content then
        (let end = find_boundary CHUNK_SIZE content start;
             chunk = strip (slice content start end);
             chunks' = (if chunk \<noteq> [] \<and> 100 < length chunk then chunks @ [chunk] else chunks);
             start' = end - CHUNK_OVERLAP
         in if length content \<le> start' then chunks' else chunk_loop content start' chunks')
      else chunks)"
  by pat_completeness auto
termination
proof (relation "measure (\<lambda>(content, start, chunks). length content - start)", goal_cases)
  case 1
  show ?case by simp
next
  case (2 content start chunks e chunk chunks' start')
  then show ?case
    using find_boundary_config_lower [of start content]
    by (simp add: CHUNK_OVERLAP_def)
qed

declare chunk_loop.simps [simp del]

definition chunk_content :: "string \<Rightarrow> string list" where
  "chunk_content content =
     (if length content \<le> CHUNK_SIZE then [content] else chunk_loop content 0 [])"

subsection \<open>Knowledge-base build: \<open>build_knowledge_base\<close>\<close>

text \<open>
  A scraped document is a dictionary read with \<open>doc.get(key, default)\<close>: each key may be
  absent. A metadata value is a string or an integer.
\<close>

record scraped_doc =
  doc_content :: "string option"
  doc_url :: "string option"
  doc_title :: "string option"
  doc_category :: "string option"
  doc_keywords :: "string list option"

datatype mval = MStr string | MInt nat

type_synonym metadata = "(string \<times> mval) list"

definition get_default :: "'a option \<Rightarrow> 'a \<Rightarrow> 'a" where
  "get_default v d = (case v of Some x \<Rightarrow> x | None \<Rightarrow> d)"

definition chunk_id :: "nat \<Rightarrow> nat \<Rightarrow> string" where
  "chunk_id doc_idx chunk_idx = ''doc_'' @ str_of_nat doc_idx @ ''_chunk_'' @ str_of_nat chunk_idx"

definition chunk_metadata :: "scraped_doc \<Rightarrow> nat \<Rightarrow> nat \<Rightarrow> nat \<Rightarrow> metadata" where
  "chunk_metadata doc doc_idx chunk_idx total_chunks =
     [(''source_url'', MStr (get_default (doc_url doc) [])),
      (''title'', MStr (get_default (doc_title doc) ''Untitled'')),
      (''category'', MStr (get_default (doc_category doc) ''general'')),
      (''chunk_index'', MInt chunk_idx),
      (''total_chunks'', MInt total_chunks),
      (''keywords'', MStr (join '','' (get_default (doc_keywords doc) []))),
      (''doc_index'', MInt doc_idx)]"

text \<open>
  Lines 116 to 138, the body of the loop over the documents: a document without content,
  or with fewer than 150 characters, contributes nothing; any other contributes one
  entry (chunk, metadata, id) per chunk.
\<close>

definition doc_entries :: "nat \<Rightarrow> scraped_doc \<Rightarrow> (string \<times> metadata \<times> string) list" where
  "doc_entries doc_idx doc =
     (let content = get_default (doc_content doc) [] in
      if content = [] \<or> length content < 150 then []
      else
        (let chunks = chunk_content content in
         map (\<lambda>(chunk_idx, chunk).
                (chunk, chunk_metadata doc doc_idx chunk_idx (length chunks),
                 chunk_id doc_idx chunk_idx))
             (enumerate 0 chunks)))"

definition all_entries :: "scraped_doc list \<Rightarrow> (string \<times> metadata \<times> string) list" where
  "all_entries scraped_data =
     concat (map (\<lambda>(doc_idx, doc). doc_entries doc_idx doc) (enumerate 0 scraped_data))"

definition all_chunks :: "scraped_doc list \<Rightarrow> string list" where
  "all_chunks scraped_data = map fst (all_entries scraped_data)"

definition all_metadatas :: "scraped_doc list \<Rightarrow> metadata list" where
  "all_metadatas scraped_data = map (\<lambda>e. fst (snd e)) (all_entries scraped_data)"

definition all_ids :: "scraped_doc list \<Rightarrow> string list" where
  "all_ids scraped_data = map (\<lambda>e. snd (snd e)) (all_entries scraped_data)"

text \<open>
  The vector store is external. Its insertion \<open>collection.add(documents, metadatas, ids)\<close>
  is a parameter: from the store before the call it gives the exception raised, if any,
  and the store after the call.
\<close>

type_synonym 's add_fn = "'s \<Rightarrow> string list \<Rightarrow> metadata list \<Rightarrow> string list \<Rightarrow> exn option \<times> 's"

definition batch_size :: nat where
  "batch_size = 50"

text \<open>\<open>range(0, n, batch_size)\<close>.\<close>

definition batch_starts :: "nat \<Rightarrow> nat list" where
  "batch_starts n = map (\<lambda>k. k * batch_size) [0 ..< (n + batch_size - 1) div batch_size]"

text \<open>
  Lines 146 to 167, the loop over the batches. The local variable \<open>batch_num\<close> is
  assigned at line 158, after the insertion of line 152 has returned, and read by the
  handler at line 166: \<open>None\<close> is the variable not yet bound, and reading it then raises
  \<open>UnboundLocalError\<close> inside the handler, which leaves the loop. The result is the
  exception that left the loop, if any, and the store.
\<close>

fun add_batches :: "'s add_fn \<Rightarrow> string list \<Rightarrow> metadata list \<Rightarrow> string list \<Rightarrow>
    nat list \<Rightarrow> nat option \<Rightarrow> 's \<Rightarrow> exn option \<times> 's" where
  "add_batches add chunks metas ids [] batch_num s = (None, s)"
| "add_batches add chunks metas ids (i # rest) batch_num s =
     (case add s (slice chunks i (i + batch_size)) (slice metas i (i + batch_size))
                 (slice ids i (i + batch_size)) of
        (None, s') \<Rightarrow> add_batches add chunks metas ids rest (Some (i div batch_size + 1)) s'
      | (Some e, s') \<Rightarrow>
          (case batch_num of
             None \<Rightarrow> (Some (UnboundLocalError ''batch_num''), s')
           | Some n \<Rightarrow> add_batches add chunks metas ids rest batch_num s'))"

text \<open>
  Lines 96 to 177, with \<open>progress_callback\<close> at its default \<open>None\<close>. The call of
  \<open>save_scraped_data_to_db\<close> at line 170 catches its own exceptions and its result is
  dropped, so it has no part in the outcome. An exception that leaves the loop over the
  batches reaches the handler of line 175, which returns \<open>False\<close>. The result is the
  boolean returned and the store.
\<close>

definition build_knowledge_base :: "'s add_fn \<Rightarrow> scraped_doc list \<Rightarrow> 's \<Rightarrow> bool \<times> 's" where
  "build_knowledge_base add scraped_data s =
     (if scraped_data = [] then (False, s)
      else
        (case add_batches add (all_chunks scraped_data) (all_metadatas scraped_data)
                (all_ids scraped_data) (batch_starts (length (all_chunks scraped_data))) None s of
           (None, s') \<Rightarrow> (True, s')
         | (Some e, s') \<Rightarrow> (False, s')))"

text \<open>
  Modelled from the spec: the Knowledge Store's insertion, which belongs to the external
  vector index and is not in the repository. The spec gives it upsert semantics: the store
  is keyed by chunk id, and re-adding an id overwrites its entry instead of duplicating
  it. \<open>store_count\<close> is the store's \<open>count()\<close>.
\<close>

type_synonym store = "string \<rightharpoonup> (string \<times> metadata)"

definition upsert_one :: "(string \<times> string \<times> metadata) \<Rightarrow> store \<Rightarrow> store" where
  "upsert_one e s = s(fst e \<mapsto> snd e)"

definition upsert :: "store add_fn" where
  "upsert s documents metadatas ids = (None, fold upsert_one (zip ids (zip documents metadatas)) s)"

definition store_count :: "store \<Rightarrow> nat" where
  "store_count s = card (dom s)"

subsection \<open>The retriever: \<open>retrieve_context\<close>\<close>

record doc_info =
  content :: string
  metadata :: metadata
  similarity_score :: real
  source_url :: mval
  title :: mval

text \<open>
  What \<open>collection.query\<close> returns: a dictionary whose keys \<open>documents\<close>, \<open>metadatas\<close> and
  \<open>distances\<close> may be absent, each a list with one inner list per query text. The
  collection itself answers \<open>count()\<close> and \<open>query\<close>, which may raise.
\<close>

record query_result =
  documents :: "string list list option"
  metadatas :: "metadata list list option"
  distances :: "real list list option"

record collection =
  coll_count :: nat
  coll_query :: "string \<Rightarrow> nat \<Rightarrow> exn + query_result"

text \<open>
  Lines 207 and 208, \<open>results.get(key, [[]])[0] if results.get(key) else []\<close>: the first
  inner list, or the empty list when the key is absent or its list is empty.
\<close>

definition first_or_empty :: "'a list list option \<Rightarrow> 'a list" where
  "first_or_empty v = (case v of Some (x # _) \<Rightarrow> x | _ \<Rightarrow> [])"

text \<open>\<open>metadata.get(key, default)\<close>.\<close>

definition dict_get :: "metadata \<Rightarrow> string \<Rightarrow> mval \<Rightarrow> mval" where
  "dict_get md k d = (case map_of md k of Some v \<Rightarrow> v | None \<Rightarrow> d)"

fun str_of_mval :: "mval \<Rightarrow> string" where
  "str_of_mval (MStr s) = s"
| "str_of_mval (MInt n) = str_of_nat n"

text \<open>Lines 213 to 215: the configured threshold, absent or not, and its fallback.\<close>

definition effective_threshold :: "real option \<Rightarrow> real" where
  "effective_threshold configured =
     (let threshold = get_default configured DEFAULT_SIMILARITY_THRESHOLD in
      if threshold > 8 / 10 then DEFAULT_SIMILARITY_THRESHOLD else threshold)"

text \<open>Lines 225 and 230: the distance of entry \<open>i\<close>, 1.0 when none was returned, and its score.\<close>

definition distance_at :: "real list \<Rightarrow> nat \<Rightarrow> real" where
  "distance_at dists i = (if i < length dists then dists ! i else 1)"

definition similarity :: "real \<Rightarrow> real" where
  "similarity distance = max 0 (1 - distance / (3 / 2))"

definition context_part :: "doc_info \<Rightarrow> string" where
  "context_part d = ''[Source: '' @ str_of_mval (title d) @ '']\<newline>'' @ content d @ ''\<newline>''"

text \<open>Lines 236 to 242 (and 270 to 276): the dictionary \<open>doc_info\<close> of a kept entry.\<close>

definition make_doc_info :: "string \<Rightarrow> metadata \<Rightarrow> real \<Rightarrow> doc_info" where
  "make_doc_info document md score =
     \<lparr>content = document, metadata = md, similarity_score = score,
      source_url = dict_get md ''source_url'' (MStr []),
      title = dict_get md ''title'' (MStr ''Unknown'')\<rparr>"

text \<open>
  Lines 223 to 250 (and 262 to 283), the body of a filter pass for entry \<open>i\<close>, on the
  accumulators \<open>retrieved_docs\<close>, \<open>context_parts\<close> and \<open>total_relevance\<close>. Nothing in the body
  raises on a result of this type, so the handler of line 252 has no branch here.
\<close>

definition process_entry :: "real \<Rightarrow> string list \<Rightarrow> metadata list \<Rightarrow> real list \<Rightarrow> nat \<Rightarrow>
    doc_info list \<times> string list \<times> real \<Rightarrow> doc_info list \<times> string list \<times> real" where
  "process_entry threshold docs metas dists i acc =
     (case acc of (retrieved_docs, context_parts, total_relevance) \<Rightarrow>
        (let distance = distance_at dists i;
             md = (if i < length metas then metas ! i else []);
             document = docs ! i;
             score = similarity distance
         in if score \<ge> threshold then
              (let info = make_doc_info document md score
               in (retrieved_docs @ [info], context_parts @ [context_part info],
                   total_relevance + score))
            else acc))"

definition filter_pass :: "real \<Rightarrow> string list \<Rightarrow> metadata list \<Rightarrow> real list \<Rightarrow>
    doc_info list \<times> string list \<times> real \<Rightarrow> doc_info list \<times> string list \<times> real" where
  "filter_pass threshold docs metas dists acc =
     fold (process_entry threshold docs metas dists) [0 ..< length docs] acc"

definition separator :: string where
  "separator = ''\<newline>---\<newline>''"

text \<open>Lines 179 to 300. The first argument is \<open>Config.SIMILARITY_THRESHOLD\<close>, read with \<open>getattr\<close>.\<close>

definition retrieve_context :: "real option \<Rightarrow> collection option \<Rightarrow> string \<Rightarrow>
    string \<times> doc_info list \<times> real" where
  "retrieve_context configured coll query =
     (case coll of
        None \<Rightarrow> ([], [], 0)
      | Some c \<Rightarrow>
          if coll_count c = 0 then ([], [], 0)
          else
            (case coll_query c query (min MAX_RETRIEVED_DOCS (coll_count c)) of
               Inl query_error \<Rightarrow> ([], [], 0)
             | Inr results \<Rightarrow>
                 (case documents results of
                    None \<Rightarrow> ([], [], 0)
                  | Some [] \<Rightarrow> ([], [], 0)
                  | Some (docs # _) \<Rightarrow>
                      if docs = [] then ([], [], 0)
                      else
                        (let metas = first_or_empty (metadatas results);
                             dists = first_or_empty (distances results);
                             threshold = effective_threshold configured;
                             first_pass = filter_pass threshold docs metas dists ([], [], 0);
                             (retrieved_docs, context_parts, total_relevance) =
                               (if fst first_pass = [] \<and> threshold > 1 / 10
                                then filter_pass (1 / 10) docs metas dists first_pass
                                else first_pass);
                             full_context = join separator context_parts;
                             avg_relevance =
                               (if retrieved_docs \<noteq> []
                                then total_relevance / real (length retrieved_docs) else 0)
                         in (full_context, retrieved_docs, avg_relevance)))))"

subsection \<open>The context budgeter: \<open>_count_tokens\<close> and \<open>_truncate_context\<close>\<close>

text \<open>
  \<open>len(text.split())\<close>: the number of maximal runs of non-space characters; the flag says
  whether the previous character was inside a word.
\<close>

fun count_words :: "bool \<Rightarrow> string \<Rightarrow> nat" where
  "count_words in_word [] = 0"
| "count_words in_word (c # cs) =
     (if isspace c then count_words False cs
      else (if in_word then 0 else 1) + count_words True cs)"

text \<open>
  Lines 302 to 308. The tokenizer is external: it gives the number of tokens or raises,
  and then the count is \<open>int(words * 1.3)\<close>.
\<close>

definition count_tokens :: "(string \<Rightarrow> exn + nat) \<Rightarrow> string \<Rightarrow> nat" where
  "count_tokens tokenizer text =
     (case tokenizer text of
        Inr n \<Rightarrow> n
      | Inl e \<Rightarrow> (count_words False text * 13) div 10)"

text \<open>Lines 321 to 327: the greedy loop over the units.\<close>

fun accumulate :: "(string \<Rightarrow> nat) \<Rightarrow> nat \<Rightarrow> string list \<Rightarrow> string list \<Rightarrow> nat \<Rightarrow> string list" where
  "accumulate count max_tokens [] truncated_parts current_tokens = truncated_parts"
| "accumulate count max_tokens (part # parts) truncated_parts current_tokens =
     (let part_tokens = count part in
      if current_tokens + part_tokens \<le> max_tokens
      then accumulate count max_tokens parts (truncated_parts @ [part]) (current_tokens + part_tokens)
      else truncated_parts)"

text \<open>
  Lines 310 to 332. \<open>_count_tokens\<close> catches what the tokenizer raises, and splitting and
  joining strings do not raise, so the handler of line 330 has no branch here.
\<close>

definition truncate_context :: "(string \<Rightarrow> exn + nat) \<Rightarrow> string \<Rightarrow> nat \<Rightarrow> string" where
  "truncate_context tokenizer context max_tokens =
     (if count_tokens tokenizer context \<le> max_tokens then context
      else join separator
             (accumulate (count_tokens tokenizer) max_tokens (split context separator) [] 0))"

subsection \<open>The answer generator: \<open>generate_response\<close>\<close>

record source =
  src_title :: mval
  src_url :: mval
  src_relevance :: real

record llm_response =
  message_content :: string
  usage_total_tokens :: "nat option"

record gen_result =
  response :: string
  sources :: "source list"
  context_used :: nat
  tokens_used :: nat

text \<open>Lines 377 to 385: a source is appended unless an equal one is already in the list.\<close>

definition source_of :: "doc_info \<Rightarrow> source" where
  "source_of doc = \<lparr>src_title = title doc, src_url = source_url doc,
                     src_relevance = similarity_score doc\<rparr>"

fun extract_sources :: "doc_info list \<Rightarrow> source list \<Rightarrow> source list" where
  "extract_sources [] sources_used = sources_used"
| "extract_sources (doc # docs) sources_used =
     (let source_info = source_of doc
      in if source_info \<notin> set sources_used
         then extract_sources docs (sources_used @ [source_info])
         else extract_sources docs sources_used)"

definition APOLOGY :: string where
  "APOLOGY = ''I apologize, but I'' @ [CHR 0x27] @ ''m experiencing technical difficulties. Please try again or contact Jupiter customer support for assistance.''"

text \<open>
  Lines 334 to 403. The language model is external: the two prompts are fixed templates
  around the truncated context and the query, so the call is a function of these two, and
  it returns a completion or raises. \<open>max_tokens\<close> of \<open>_truncate_context\<close> is at its default.
\<close>

definition generate_response :: "(string \<Rightarrow> exn + nat) \<Rightarrow> (string \<Rightarrow> string \<Rightarrow> exn + llm_response) \<Rightarrow>
    string \<Rightarrow> string \<Rightarrow> doc_info list \<Rightarrow> gen_result" where
  "generate_response tokenizer llm query context retrieved_docs =
     (let context = truncate_context tokenizer context 2000 in
      case llm context query of
        Inr completion \<Rightarrow>
          \<lparr>response = message_content completion,
           sources = extract_sources retrieved_docs [],
           context_used = length context,
           tokens_used = get_default (usage_total_tokens completion) 0\<rparr>
      | Inl e \<Rightarrow>
          \<lparr>response = APOLOGY, sources = [], context_used = 0, tokens_used = 0\<rparr>)"

subsection \<open>The orchestrator: \<open>ask_question\<close>\<close>

text \<open>
  The result of \<open>ask_question\<close> is a dictionary: a list of keys with their values, in the
  order of the dictionary display.
\<close>

datatype pyval = PStr string | PFloat real | PInt nat | PSources "source list"

type_synonym result = "(string \<times> pyval) list"

text \<open>
  What \<open>ask_question\<close> calls: the methods \<open>retrieve_context\<close> and \<open>generate_response\<close> as
  they answer at each attempt (either may be replaced by one that raises, which is what
  the handler of line 467 is for), the log collaborator, and the seconds elapsed since
  \<open>start_time\<close> when the given attempt reads the clock.
\<close>

record engine =
  retrieve :: "nat \<Rightarrow> string \<Rightarrow> exn + (string \<times> doc_info list \<times> real)"
  generate :: "nat \<Rightarrow> string \<Rightarrow> string \<Rightarrow> doc_info list \<Rightarrow> exn + gen_result"
  log_conversation :: "string \<Rightarrow> string \<Rightarrow> string \<Rightarrow> mval list \<Rightarrow> real \<Rightarrow> real \<Rightarrow> exn + nat"
  elapsed :: "nat \<Rightarrow> real"

definition max_attempts :: nat where
  "max_attempts = 3"

definition NO_CONTEXT_MESSAGE :: string where
  "NO_CONTEXT_MESSAGE = ''I couldn'' @ [CHR 0x27] @ ''t find relevant information about your question in Jupiter'' @ [CHR 0x27] @ ''s knowledge base. This might be because the similarity threshold is too high, or the question is outside Jupiter'' @ [CHR 0x27] @ ''s domain. Please try rephrasing your question or contact Jupiter customer support for assistance.''"

definition TECHNICAL_ERROR_MESSAGE :: string where
  "TECHNICAL_ERROR_MESSAGE = ''I apologize for the technical error. Please try again or contact Jupiter support.''"

fun str_of_exn :: "exn \<Rightarrow> string" where
  "str_of_exn (UnboundLocalError v) = v"
| "str_of_exn (Error m) = m"

text \<open>Lines 422 to 429.\<close>

definition no_context_result :: "string \<Rightarrow> real \<Rightarrow> result" where
  "no_context_result query t =
     [(''query'', PStr query),
      (''response'', PStr NO_CONTEXT_MESSAGE),
      (''sources'', PSources []),
      (''relevance_score'', PFloat 0),
      (''response_time'', PFloat t),
      (''context_length'', PInt 0)]"

text \<open>Lines 470 to 478.\<close>

definition error_result :: "string \<Rightarrow> real \<Rightarrow> exn \<Rightarrow> result" where
  "error_result query t e =
     [(''query'', PStr query),
      (''response'', PStr TECHNICAL_ERROR_MESSAGE),
      (''sources'', PSources []),
      (''relevance_score'', PFloat 0),
      (''response_time'', PFloat t),
      (''context_length'', PInt 0),
      (''error'', PStr (str_of_exn e))]"

text \<open>Lines 481 to 488.\<close>

definition unexpected_result :: "string \<Rightarrow> real \<Rightarrow> result" where
  "unexpected_result query t =
     [(''query'', PStr query),
      (''response'', PStr ''Unexpected error occurred.''),
      (''sources'', PSources []),
      (''relevance_score'', PFloat 0),
      (''response_time'', PFloat t),
      (''context_length'', PInt 0)]"

text \<open>
  Lines 441 to 462: the final result, and the conversation id added to it when a session
  id is given and the log call returns; what the log call raises is dropped.
\<close>

definition final_result :: "engine \<Rightarrow> string \<Rightarrow> string option \<Rightarrow> gen_result \<Rightarrow>
    doc_info list \<Rightarrow> real \<Rightarrow> real \<Rightarrow> result" where
  "final_result eng query session_id res retrieved_docs avg_relevance response_time =
     (let final =
        [(''query'', PStr query),
         (''response'', PStr (response res)),
         (''sources'', PSources (sources res)),
         (''relevance_score'', PFloat avg_relevance),
         (''response_time'', PFloat response_time),
         (''context_length'', PInt (context_used res)),
         (''tokens_used'', PInt (tokens_used res)),
         (''num_sources'', PInt (length retrieved_docs))]
      in case session_id of
           None \<Rightarrow> final
         | Some sid \<Rightarrow>
             if sid = [] then final
             else
               (case log_conversation eng sid query (response res) (map src_url (sources res))
                       avg_relevance response_time of
                  Inr conversation_id \<Rightarrow> final @ [(''conversation_id'', PInt conversation_id)]
                | Inl log_error \<Rightarrow> final))"

text \<open>
  Lines 412 to 465, the body of the \<open>try\<close> of one attempt: it raises (\<open>Inl\<close>), returns a
  result (\<open>Some\<close>), or reaches the \<open>continue\<close> of line 431 (\<open>None\<close>).
\<close>

definition attempt_body :: "engine \<Rightarrow> string \<Rightarrow> string option \<Rightarrow> nat \<Rightarrow> exn + result option" where
  "attempt_body eng query session_id attempt =
     (case retrieve eng attempt query of
        Inl e \<Rightarrow> Inl e
      | Inr (context, retrieved_docs, avg_relevance) \<Rightarrow>
          if context = [] then
            (if attempt = max_attempts
             then Inr (Some (no_context_result query (elapsed eng attempt)))
             else Inr None)
          else
            (case generate eng attempt query context retrieved_docs of
               Inl e \<Rightarrow> Inl e
             | Inr res \<Rightarrow>
                 Inr (Some (final_result eng query session_id res retrieved_docs avg_relevance
                              (elapsed eng attempt)))))"

text \<open>
  Lines 410 to 488, the loop \<open>for attempt in range(1, max_attempts + 1)\<close> from a given
  attempt on. The result is the attempt at which the function returned and the dictionary
  returned; the return after the loop is counted at the last attempt made.
\<close>

function ask_from :: "engine \<Rightarrow> string \<Rightarrow> string option \<Rightarrow> nat \<Rightarrow> nat \<times> result" where
  "ask_from eng query session_id attempt =
     (if max_attempts < attempt
      then (attempt - 1, unexpected_result query (elapsed eng (attempt - 1)))
      else
        (case attempt_body eng query session_id attempt of
           Inr (Some res) \<Rightarrow> (attempt, res)
         | Inr None \<Rightarrow> ask_from eng query session_id (attempt + 1)
         | Inl e \<Rightarrow>
             if attempt = max_attempts
             then (attempt, error_result query (elapsed eng attempt) e)
             else ask_from eng query session_id (attempt + 1)))"
  by pat_completeness auto
termination
  by (relation "measure (\<lambda>(eng, query, session_id, attempt). Suc max_attempts - attempt)") auto

declare ask_from.simps [simp del]

definition ask_question :: "engine \<Rightarrow> string \<Rightarrow> string option \<Rightarrow> nat \<times> result" where
  "ask_question eng query session_id = ask_from eng query session_id 1"

text \<open>
  The engine as the class builds it: \<open>retrieve_context\<close> on the collection as it stands at
  each attempt, and \<open>generate_response\<close> on the language model as it answers at each
  attempt. Neither raises.
\<close>

definition jupiter_engine :: "real option \<Rightarrow> (nat \<Rightarrow> collection option) \<Rightarrow> (string \<Rightarrow> exn + nat) \<Rightarrow>
    (nat \<Rightarrow> string \<Rightarrow> string \<Rightarrow> exn + llm_response) \<Rightarrow>
    (string \<Rightarrow> string \<Rightarrow> string \<Rightarrow> mval list \<Rightarrow> real \<Rightarrow> real \<Rightarrow> exn + nat) \<Rightarrow> (nat \<Rightarrow> real) \<Rightarrow> engine" where
  "jupiter_engine configured coll tokenizer llm logger clock =
     \<lparr>retrieve = (\<lambda>attempt query. Inr (retrieve_context configured (coll attempt) query)),
      generate = (\<lambda>attempt query context retrieved_docs.
                    Inr (generate_response tokenizer (llm attempt) query context retrieved_docs)),
      log_conversation = logger,
      elapsed = clock\<rparr>"

section \<open>Inputs used by the examples\<close>

definition empty_collection :: collection where
  "empty_collection = \<lparr>coll_count = 0, coll_query = (\<lambda>q n. Inl (Error ''unreachable''))\<rparr>"

definition empty_engine :: engine where
  "empty_engine = jupiter_engine (Some (3 / 10)) (\<lambda>attempt. Some empty_collection)
       (\<lambda>text. Inr 0) (\<lambda>attempt context query. Inl (Error ''unreachable''))
       (\<lambda>sid q r urls rel t. Inr 0) (\<lambda>attempt. 0)"

definition raising_engine :: engine where
  "raising_engine =
     \<lparr>retrieve = (\<lambda>attempt query. Inl (Error ''store unavailable'')),
      generate = (\<lambda>attempt query context retrieved_docs. Inl (Error ''unreachable'')),
      log_conversation = (\<lambda>sid q r urls rel t. Inr 0),
      elapsed = (\<lambda>attempt. 0)\<rparr>"

definition fees_metadata :: metadata where
  "fees_metadata = [(''source_url'', MStr ''https://jupiter.money/fees''), (''title'', MStr ''Fees'')]"

definition twin_collection :: collection where
  "twin_collection =
     \<lparr>coll_count = 2,
      coll_query = (\<lambda>query n_results. Inr
        \<lparr>documents = Some [[''No fees.'', ''No fees.'']],
         metadatas = Some [[fees_metadata, fees_metadata]],
         distances = Some [[3 / 10, 3 / 10]]\<rparr>)\<rparr>"

definition twin_engine :: engine where
  "twin_engine = jupiter_engine (Some (3 / 10)) (\<lambda>attempt. Some twin_collection)
       (\<lambda>text. Inr 0) (\<lambda>attempt context query. Inr \<lparr>message_content = ''None.'', usage_total_tokens = Some 7\<rparr>)
       (\<lambda>sid q r urls rel t. Inr 0) (\<lambda>attempt. 0)"

definition unit_context :: string where
  "unit_context = join separator [''u0'', ''u1'', ''u2'', ''u3'', ''u4'', ''u5'', ''u6'', ''u7'', ''u8'', ''u9'']"

definition char_tokenizer :: "string \<Rightarrow> exn + nat" where
  "char_tokenizer text = Inr (length text)"

definition weak_collection :: collection where
  "weak_collection =
     \<lparr>coll_count = 1,
      coll_query = (\<lambda>query n_results. Inr
        \<lparr>documents = Some [[''No fees.'']],
         metadatas = Some [[fees_metadata]],
         distances = Some [[6 / 5]]\<rparr>)\<rparr>"

definition bare_collection :: collection where
  "bare_collection =
     \<lparr>coll_count = 1,
      coll_query = (\<lambda>query n_results. Inr
        \<lparr>documents = Some [[''No fees.'']], metadatas = None, distances = None\<rparr>)\<rparr>"

definition far_boundary_content :: string where
  "far_boundary_content = replicate 700 (CHR ''a'') @ ''. '' @ replicate 400 (CHR ''b'')"

definition near_boundary_content :: string where
  "near_boundary_content = replicate 900 (CHR ''a'') @ ''. '' @ replicate 200 (CHR ''b'')"

definition uniform_content :: string where
  "uniform_content = replicate 2000 (CHR ''a'')"

text \<open>
  A store that counts the calls of its insertion, records the batches of ids inserted,
  and fails at the calls whose numbers are given; and a document of 150 characters, which
  gives one chunk.
\<close>

record probe =
  calls :: nat
  inserted :: "string list list"

definition probe_add :: "nat list \<Rightarrow> probe add_fn" where
  "probe_add failing s docs metas ids =
     (if calls s \<in> set failing
      then (Some (Error ''insertion failed''), s\<lparr>calls := calls s + 1\<rparr>)
      else (None, s\<lparr>calls := calls s + 1, inserted := inserted s @ [ids]\<rparr>))"

definition short_doc :: scraped_doc where
  "short_doc = \<lparr>doc_content = Some (replicate 150 (CHR ''x'')), doc_url = Some ''https://jupiter.money'',
                 doc_title = Some ''Home'', doc_category = None, doc_keywords = None\<rparr>"

section \<open>Notions used in the statements\<close>

text \<open>
  The fields every result carries, whether a result has given fields, and the two kinds
  of result: the three fixed terminal dictionaries, and the final result of a successful
  attempt.
\<close>

definition core_fields :: "string list" where
  "core_fields = [''query'', ''response'', ''sources'', ''relevance_score'', ''response_time'',
                  ''context_length'']"

definition has_fields :: "result \<Rightarrow> string list \<Rightarrow> bool" where
  "has_fields r ks = list_all (\<lambda>k. map_of r k \<noteq> None) ks"

definition terminal_outcome :: "string \<Rightarrow> result \<Rightarrow> bool" where
  "terminal_outcome query r =
     ((\<exists>t. r = no_context_result query t) \<or> (\<exists>t e. r = error_result query t e)
      \<or> (\<exists>t. r = unexpected_result query t))"

definition success_outcome :: "engine \<Rightarrow> string \<Rightarrow> string option \<Rightarrow> result \<Rightarrow> bool" where
  "success_outcome eng query sid r =
     (\<exists>res docs avg t. r = final_result eng query sid res docs avg t)"

text \<open>
  For the retriever: the score of entry \<open>i\<close>, the indices a filter pass keeps at a given
  threshold, the dictionary built for entry \<open>i\<close>, and the indices kept after the relaxation
  of line 257.
\<close>

definition score_at :: "real list \<Rightarrow> nat \<Rightarrow> real" where
  "score_at dists i = similarity (distance_at dists i)"

definition kept :: "real \<Rightarrow> string list \<Rightarrow> real list \<Rightarrow> nat list" where
  "kept threshold docs dists = filter (\<lambda>i. threshold \<le> score_at dists i) [0 ..< length docs]"

definition entry_at :: "string list \<Rightarrow> metadata list \<Rightarrow> real list \<Rightarrow> nat \<Rightarrow> doc_info" where
  "entry_at docs metas dists i =
     make_doc_info (docs ! i) (if i < length metas then metas ! i else []) (score_at dists i)"

definition final_kept :: "real option \<Rightarrow> string list \<Rightarrow> real list \<Rightarrow> nat list" where
  "final_kept configured docs dists =
     (if kept (effective_threshold configured) docs dists = [] \<and> 1 / 10 < effective_threshold configured
      then kept (1 / 10) docs dists
      else kept (effective_threshold configured) docs dists)"


text \<open>The elements of a list in the order of their first occurrences, each once.\<close>

definition first_occurrences :: "'a list \<Rightarrow> 'a list" where
  "first_occurrences xs = rev (remdups (rev xs))"

text \<open>
  For the knowledge-base build: the chunks a document contributes, the pairs (document
  index, chunk index) of a document sequence numbered from \<open>k\<close>, and the number a decimal
  string denotes.
\<close>

definition doc_chunks :: "scraped_doc \<Rightarrow> string list" where
  "doc_chunks doc =
     (let c = get_default (doc_content doc) [] in
      if c = [] \<or> length c < 150 then [] else chunk_content c)"

definition index_pairs :: "nat \<Rightarrow> scraped_doc list \<Rightarrow> (nat \<times> nat) list" where
  "index_pairs k ds =
     concat (map (\<lambda>(i, d). map (\<lambda>j. (i, j)) [0 ..< length (doc_chunks d)]) (enumerate k ds))"

definition nat_of_str :: "string \<Rightarrow> nat" where
  "nat_of_str s = foldl (\<lambda>a c. 10 * a + (of_char c - 48)) 0 s"

section \<open>The orchestrator's attempt bound\<close>




section \<open>The fields of a result\<close>

lemma empty_engine_result:
  "ask_question empty_engine ''fees'' None = (3, no_context_result ''fees'' 0)"
  by (simp add: ask_question_def ask_from.simps attempt_body_def max_attempts_def
      empty_engine_def jupiter_engine_def retrieve_context_def empty_collection_def)

lemma raising_engine_result:
  "ask_question raising_engine ''fees'' None = (3, error_result ''fees'' 0 (Error ''store unavailable''))"
  by (simp add: ask_question_def ask_from.simps attempt_body_def max_attempts_def
      raising_engine_def)

lemma final_result_fields:
  "map_of (final_result eng query sid res docs avg t) ''query'' = Some (PStr query)"
  "map_of (final_result eng query sid res docs avg t) ''response'' = Some (PStr (response res))"
  "map_of (final_result eng query sid res docs avg t) ''sources'' = Some (PSources (sources res))"
  "map_of (final_result eng query sid res docs avg t) ''relevance_score'' = Some (PFloat avg)"
  "map_of (final_result eng query sid res docs avg t) ''response_time'' = Some (PFloat t)"
  "map_of (final_result eng query sid res docs avg t) ''context_length'' = Some (PInt (context_used res))"
  "map_of (final_result eng query sid res docs avg t) ''tokens_used'' = Some (PInt (tokens_used res))"
  "map_of (final_result eng query sid res docs avg t) ''num_sources'' = Some (PInt (length docs))"
  by (simp_all add: final_result_def Let_def split: option.splits sum.splits)

lemma attempt_body_shape:
  "attempt_body eng query sid attempt = Inr (Some r) \<Longrightarrow>
     (\<exists>t. r = no_context_result query t) \<or> success_outcome eng query sid r"
  unfolding attempt_body_def success_outcome_def
  by (simp split: sum.splits prod.splits if_splits) blast+

lemma ask_from_shape:
  "terminal_outcome query (snd (ask_from eng query sid attempt))
   \<or> success_outcome eng query sid (snd (ask_from eng query sid attempt))"
proof (induction eng query sid attempt rule: ask_from.induct)
  case (1 eng query session_id attempt)
  show ?case
  proof (cases "max_attempts < attempt")
    case True
    then show ?thesis
      by (subst ask_from.simps, subst (2) ask_from.simps) (auto simp: terminal_outcome_def)
  next
    case False
    show ?thesis
    proof (cases "attempt_body eng query session_id attempt")
      case (Inl e)
      then show ?thesis
        using "1.IH" False
        by (subst ask_from.simps, subst (2) ask_from.simps) (auto simp: terminal_outcome_def)
    next
      case (Inr v)
      show ?thesis
      proof (cases v)
        case None
        then show ?thesis
          using "1.IH" False Inr
          by (subst ask_from.simps, subst (2) ask_from.simps) auto
      next
        case (Some res)
        then show ?thesis
          using attempt_body_shape [of eng query session_id attempt res] False Inr
          by (subst ask_from.simps, subst (2) ask_from.simps) (auto simp: terminal_outcome_def)
      qed
    qed
  qed
qed

text \<open>
  Claim C6, as stated, fails: the result returned when no context is found at the last
  attempt, and the result returned when the last attempt raises, carry neither
  \<open>tokens_used\<close> nor \<open>num_sources\<close>.
\<close>

theorem C6_counterexample:
  "map_of (snd (ask_question empty_engine ''fees'' None)) ''tokens_used'' = None
   \<and> map_of (snd (ask_question empty_engine ''fees'' None)) ''num_sources'' = None
   \<and> map_of (snd (ask_question raising_engine ''fees'' None)) ''tokens_used'' = None
   \<and> map_of (snd (ask_question raising_engine ''fees'' None)) ''num_sources'' = None"
  by (simp add: empty_engine_result raising_engine_result no_context_result_def error_result_def)

text \<open>
  Claim C6, amended. Whatever the retriever, the generator and the log do or raise,
  \<open>ask_question\<close> returns a dictionary with the fields \<open>query\<close>, \<open>response\<close>, \<open>sources\<close>,
  \<open>relevance_score\<close>, \<open>response_time\<close> and \<open>context_length\<close>. The result of a successful
  attempt has \<open>tokens_used\<close> and \<open>num_sources\<close> as well; the terminal results (no context,
  technical error, and the return after the loop) have neither.
\<close>

theorem C6_result_fields:
  "has_fields (snd (ask_question eng query sid)) core_fields
   \<and> (success_outcome eng query sid (snd (ask_question eng query sid))
        \<and> has_fields (snd (ask_question eng query sid)) [''tokens_used'', ''num_sources'']
      \<or> terminal_outcome query (snd (ask_question eng query sid))
        \<and> map_of (snd (ask_question eng query sid)) ''tokens_used'' = None
        \<and> map_of (snd (ask_question eng query sid)) ''num_sources'' = None)"
proof -
  let ?r = "snd (ask_question eng query sid)"
  consider (terminal) "terminal_outcome query ?r" | (success) "success_outcome eng query sid ?r"
    using ask_from_shape [of query eng sid 1] by (auto simp: ask_question_def)
  then show ?thesis
  proof cases
    case terminal
    then show ?thesis
      by (auto simp: terminal_outcome_def has_fields_def core_fields_def
          no_context_result_def error_result_def unexpected_result_def)
  next
    case success
    then obtain res docs avg t where r: "?r = final_result eng query sid res docs avg t"
      by (auto simp: success_outcome_def)
    have "has_fields ?r core_fields" "has_fields ?r [''tokens_used'', ''num_sources'']"
      unfolding r by (simp_all add: has_fields_def core_fields_def final_result_fields)
    then show ?thesis
      using success by simp
  qed
qed

theorem C6_result_fields_witness:
  "has_fields (snd (ask_question twin_engine ''fees'' (Some ''s1''))) core_fields"
  using C6_result_fields [of twin_engine "''fees''" "Some ''s1''"] by simp

section \<open>Sources and their count\<close>

lemma extract_sources_set:
  "set (extract_sources docs acc) = set acc \<union> source_of ` set docs"
  by (induction docs arbitrary: acc) (auto simp: Let_def)

lemma extract_sources_distinct:
  "distinct acc \<Longrightarrow> distinct (extract_sources docs acc)"
  by (induction docs arbitrary: acc) (auto simp: Let_def)

lemma extract_sources_length:
  "length (extract_sources docs []) = card (source_of ` set docs)"
  using extract_sources_distinct [of "[]" docs] extract_sources_set [of docs "[]"]
  by (metis distinct.simps(1) distinct_card empty_set sup_bot.left_neutral)

lemma extract_sources_le: "length (extract_sources docs []) \<le> length docs"
  unfolding extract_sources_length
  by (metis card_image_le card_length le_trans List.finite_set)

lemma extract_sources_shared:
  assumes "i < j" "j < length docs" "source_of (docs ! i) = source_of (docs ! j)"
  shows "length (extract_sources docs []) < length docs"
proof -
  have "\<not> distinct (map source_of docs)"
  proof
    assume "distinct (map source_of docs)"
    moreover have "i < length (map source_of docs)" "j < length (map source_of docs)" "i \<noteq> j"
      using assms(1,2) by simp_all
    ultimately have "map source_of docs ! i \<noteq> map source_of docs ! j"
      unfolding distinct_conv_nth by blast
    then show False
      using assms by simp
  qed
  then have "card (set (map source_of docs)) < length (map source_of docs)"
    using card_distinct [of "map source_of docs"] card_length [of "map source_of docs"]
    by (meson le_neq_implies_less)
  then show ?thesis
    by (simp add: extract_sources_length)
qed

lemma attempt_body_continue:
  "attempt_body eng query sid attempt = Inr None \<Longrightarrow> attempt \<noteq> max_attempts"
  by (auto simp: attempt_body_def split: sum.splits prod.splits if_splits)

lemma ask_from_returns:
  assumes "ask_from eng query sid attempt = (k, r)" "attempt \<le> max_attempts"
  shows "attempt \<le> k \<and> k \<le> max_attempts \<and>
         (attempt_body eng query sid k = Inr (Some r)
          \<or> (\<exists>e. k = max_attempts \<and> attempt_body eng query sid k = Inl e
                 \<and> r = error_result query (elapsed eng k) e))"
  using assms
proof (induction eng query sid attempt rule: ask_from.induct)
  case (1 eng query session_id attempt)
  show ?case
  proof (cases "attempt = max_attempts")
    case True
    then show ?thesis
      using "1.prems" attempt_body_continue [of eng query session_id attempt]
      by (subst (asm) ask_from.simps) (auto split: sum.splits option.splits)
  next
    case False
    then have lt: "attempt < max_attempts" using "1.prems" by simp
    show ?thesis
    proof (cases "attempt_body eng query session_id attempt")
      case (Inl e)
      then have "ask_from eng query session_id (attempt + 1) = (k, r)"
        using "1.prems"(1) lt by (subst (asm) ask_from.simps) simp
      then show ?thesis
        using "1.IH" Inl False lt by fastforce
    next
      case (Inr v)
      show ?thesis
      proof (cases v)
        case None
        then have "ask_from eng query session_id (attempt + 1) = (k, r)"
          using "1.prems"(1) lt Inr by (subst (asm) ask_from.simps) simp
        then show ?thesis
          using "1.IH" Inr None lt by fastforce
      next
        case (Some res)
        then show ?thesis
          using "1.prems" lt Inr by (subst (asm) ask_from.simps) auto
      qed
    qed
  qed
qed

lemma generate_response_sources:
  "sources (generate_response tok llm query context docs) = extract_sources docs []
   \<or> sources (generate_response tok llm query context docs) = []"
  by (simp add: generate_response_def Let_def split: sum.splits)

lemma remdups_snoc: "remdups (ys @ [x]) = filter (\<lambda>y. y \<noteq> x) (remdups ys) @ [x]"
  by (induction ys) auto

lemma first_occurrences_Cons:
  "first_occurrences (x # xs) = x # filter (\<lambda>y. y \<noteq> x) (first_occurrences xs)"
  by (simp add: first_occurrences_def remdups_snoc rev_filter)

lemma extract_sources_first:
  "extract_sources docs acc =
     acc @ filter (\<lambda>s. s \<notin> set acc) (first_occurrences (map source_of docs))"
proof (induction docs arbitrary: acc)
  case Nil
  then show ?case by (simp add: first_occurrences_def)
next
  case (Cons doc docs)
  show ?case
  proof (cases "source_of doc \<in> set acc")
    case True
    have "filter (\<lambda>s. s \<notin> set acc) (filter (\<lambda>y. y \<noteq> source_of doc) (first_occurrences (map source_of docs)))
            = filter (\<lambda>s. s \<notin> set acc) (first_occurrences (map source_of docs))"
      using True by (auto intro: filter_cong)
    then show ?thesis
      using True Cons.IH [of acc] by (simp add: first_occurrences_Cons Let_def)
  next
    case False
    have "filter (\<lambda>s. s \<notin> set (acc @ [source_of doc])) (first_occurrences (map source_of docs))
            = filter (\<lambda>s. s \<notin> set acc) (filter (\<lambda>y. y \<noteq> source_of doc) (first_occurrences (map source_of docs)))"
      by (auto intro: filter_cong)
    then show ?thesis
      using False Cons.IH [of "acc @ [source_of doc]"] by (simp add: first_occurrences_Cons Let_def)
  qed
qed

lemma extract_sources_exact:
  "extract_sources docs [] = first_occurrences (map source_of docs)"
  by (simp add: extract_sources_first)

lemma generate_response_answered:
  "llm (truncate_context tok context 2000) query = Inr completion \<Longrightarrow>
     sources (generate_response tok llm query context docs) = extract_sources docs []"
  by (simp add: generate_response_def Let_def)

lemma generate_response_failed:
  "llm (truncate_context tok context 2000) query = Inl e \<Longrightarrow>
     sources (generate_response tok llm query context docs) = []"
  by (simp add: generate_response_def Let_def)

text \<open>
  Claim C10. When \<open>ask_question\<close> returns at an attempt whose retrieval gave a non-empty
  context, \<open>num_sources\<close> is the number of retrieved candidates. When the model call of
  that attempt answers, \<open>sources\<close> is the list of the candidates' (title, url, relevance)
  in the order of their first occurrences, each once: it has no two equal entries, its
  entries are exactly those of the candidates, and when two candidates share title, url
  and relevance it is strictly shorter than \<open>num_sources\<close>. When the model call raises,
  \<open>sources\<close> is empty. In both cases \<open>sources\<close> has no two equal entries and is strictly
  shorter than \<open>num_sources\<close> when two candidates share their triple.
\<close>

theorem C10_num_sources:
  assumes ret: "ask_question (jupiter_engine cfg coll tok llm logger clock) query sid = (k, r)"
      and ctx: "retrieve_context cfg (coll k) query = (context, docs, avg)"
      and nonempty: "context \<noteq> []"
  shows "map_of r ''num_sources'' = Some (PInt (length docs))
       \<and> (\<forall>completion. llm k (truncate_context tok context 2000) query = Inr completion \<longrightarrow>
             map_of r ''sources'' = Some (PSources (first_occurrences (map source_of docs))))
       \<and> (\<forall>e. llm k (truncate_context tok context 2000) query = Inl e \<longrightarrow>
             map_of r ''sources'' = Some (PSources []))
       \<and> extract_sources docs [] = first_occurrences (map source_of docs)
       \<and> distinct (first_occurrences (map source_of docs))
       \<and> set (first_occurrences (map source_of docs)) = source_of ` set docs
       \<and> length (first_occurrences (map source_of docs)) \<le> length docs
       \<and> ((\<exists>i j. i < j \<and> j < length docs \<and> source_of (docs ! i) = source_of (docs ! j))
             \<longrightarrow> length (first_occurrences (map source_of docs)) < length docs)
       \<and> (\<exists>srcs. map_of r ''sources'' = Some (PSources srcs)
              \<and> distinct srcs \<and> set srcs \<subseteq> source_of ` set docs
              \<and> length srcs \<le> length docs
              \<and> ((\<exists>i j. i < j \<and> j < length docs \<and> source_of (docs ! i) = source_of (docs ! j))
                    \<longrightarrow> length srcs < length docs))"
proof -
  let ?eng = "jupiter_engine cfg coll tok llm logger clock"
  let ?res = "generate_response tok (llm k) query context docs"
  let ?first = "first_occurrences (map source_of docs)"
  have body: "attempt_body ?eng query sid k =
                Inr (Some (final_result ?eng query sid ?res docs avg (clock k)))"
    using ctx nonempty by (simp add: attempt_body_def jupiter_engine_def)
  have "attempt_body ?eng query sid k = Inr (Some r)
          \<or> (\<exists>e. k = max_attempts \<and> attempt_body ?eng query sid k = Inl e
                 \<and> r = error_result query (elapsed ?eng k) e)"
    using ask_from_returns [of ?eng query sid 1 k r] ret
    by (simp add: ask_question_def max_attempts_def)
  then have r: "r = final_result ?eng query sid ?res docs avg (clock k)"
    using body by simp
  have num: "map_of r ''num_sources'' = Some (PInt (length docs))"
    and src: "map_of r ''sources'' = Some (PSources (sources ?res))"
    unfolding r by (simp_all add: final_result_fields)
  have exact: "extract_sources docs [] = ?first"
    by (rule extract_sources_exact)
  have answered: "\<forall>completion. llm k (truncate_context tok context 2000) query = Inr completion \<longrightarrow>
             map_of r ''sources'' = Some (PSources ?first)"
    using src generate_response_answered [of "llm k" tok "context" query _ docs] exact by auto
  have failed: "\<forall>e. llm k (truncate_context tok context 2000) query = Inl e \<longrightarrow>
             map_of r ''sources'' = Some (PSources [])"
    using src generate_response_failed [of "llm k" tok "context" query _ docs] by auto
  have props: "distinct ?first" "set ?first = source_of ` set docs" "length ?first \<le> length docs"
    "(\<exists>i j. i < j \<and> j < length docs \<and> source_of (docs ! i) = source_of (docs ! j))
             \<longrightarrow> length ?first < length docs"
    using extract_sources_distinct [of "[]" docs] extract_sources_set [of docs "[]"]
      extract_sources_le [of docs] extract_sources_shared [of _ _ docs]
    unfolding exact by auto
  consider (dedup) "sources ?res = ?first" | (none) "sources ?res = []"
    using generate_response_sources [of tok "llm k" query "context" docs] exact by auto
  then have "distinct (sources ?res) \<and> set (sources ?res) \<subseteq> source_of ` set docs
      \<and> length (sources ?res) \<le> length docs
      \<and> ((\<exists>i j. i < j \<and> j < length docs \<and> source_of (docs ! i) = source_of (docs ! j))
            \<longrightarrow> length (sources ?res) < length docs)"
  proof cases
    case dedup
    then show ?thesis using props by auto
  next
    case none
    then show ?thesis by auto
  qed
  then have any: "\<exists>srcs. map_of r ''sources'' = Some (PSources srcs)
              \<and> distinct srcs \<and> set srcs \<subseteq> source_of ` set docs
              \<and> length srcs \<le> length docs
              \<and> ((\<exists>i j. i < j \<and> j < length docs \<and> source_of (docs ! i) = source_of (docs ! j))
                    \<longrightarrow> length srcs < length docs)"
    using src by blast
  show ?thesis
    using num answered failed exact props any by blast
qed

lemma twin_retrieval:
  "retrieve_context (Some (3 / 10)) (Some twin_collection) ''fees'' =
     (''[Source: Fees]\<newline>No fees.\<newline>\<newline>---\<newline>[Source: Fees]\<newline>No fees.\<newline>'',
      [\<lparr>content = ''No fees.'', metadata = fees_metadata, similarity_score = 4 / 5,
        source_url = MStr ''https://jupiter.money/fees'', title = MStr ''Fees''\<rparr>,
       \<lparr>content = ''No fees.'', metadata = fees_metadata, similarity_score = 4 / 5,
        source_url = MStr ''https://jupiter.money/fees'', title = MStr ''Fees''\<rparr>],
      4 / 5)"
  by (simp add: retrieve_context_def twin_collection_def MAX_RETRIEVED_DOCS_def
      effective_threshold_def get_default_def DEFAULT_SIMILARITY_THRESHOLD_def filter_pass_def
      process_entry_def make_doc_info_def first_or_empty_def distance_at_def similarity_def dict_get_def
      context_part_def separator_def Let_def upt_rec)
    (simp add: fees_metadata_def)

lemma twin_result:
  "ask_question twin_engine ''fees'' None =
     (1, [(''query'', PStr ''fees''), (''response'', PStr ''None.''),
          (''sources'', PSources [\<lparr>src_title = MStr ''Fees'',
              src_url = MStr ''https://jupiter.money/fees'', src_relevance = 4 / 5\<rparr>]),
          (''relevance_score'', PFloat (4 / 5)), (''response_time'', PFloat 0),
          (''context_length'', PInt 53), (''tokens_used'', PInt 7), (''num_sources'', PInt 2)])"
  by (simp add: ask_question_def ask_from.simps attempt_body_def max_attempts_def
      twin_engine_def jupiter_engine_def twin_retrieval final_result_def
      generate_response_def truncate_context_def count_tokens_def source_of_def get_default_def)

theorem C10_num_sources_witness:
  "map_of (snd (ask_question twin_engine ''fees'' None)) ''num_sources'' = Some (PInt 2)
   \<and> map_of (snd (ask_question twin_engine ''fees'' None)) ''sources''
       = Some (PSources [\<lparr>src_title = MStr ''Fees'', src_url = MStr ''https://jupiter.money/fees'',
                           src_relevance = 4 / 5\<rparr>])"
proof -
  let ?d = "\<lparr>content = ''No fees.'', metadata = fees_metadata, similarity_score = 4 / 5,
        source_url = MStr ''https://jupiter.money/fees'', title = MStr ''Fees''\<rparr>"
  have first: "first_occurrences (map source_of [?d, ?d])
      = [\<lparr>src_title = MStr ''Fees'', src_url = MStr ''https://jupiter.money/fees'',
          src_relevance = 4 / 5\<rparr>]"
    by (simp add: first_occurrences_def source_of_def)
  have ret: "ask_question (jupiter_engine (Some (3 / 10)) (\<lambda>attempt. Some twin_collection) (\<lambda>text. Inr 0)
        (\<lambda>attempt context query. Inr \<lparr>message_content = ''None.'', usage_total_tokens = Some 7\<rparr>)
        (\<lambda>sid q r urls rel t. Inr 0) (\<lambda>attempt. 0)) ''fees'' None
      = (1, snd (ask_question twin_engine ''fees'' None))"
    by (simp add: twin_result twin_engine_def [symmetric])
  show ?thesis
    using C10_num_sources [OF ret twin_retrieval] first
    by simp
qed

section \<open>The context budget\<close>

lemma split_from_nonempty: "split_from sep cur s \<noteq> []"
  by (induction sep cur s rule: split_from.induct) auto

lemma join_split_from: "join sep (split_from sep cur s) = rev cur @ s"
proof (induction sep cur s rule: split_from.induct)
  case (1 sep cur)
  show ?case by simp
next
  case (2 sep cur c cs)
  show ?case
  proof (cases "sep \<noteq> [] \<and> take (length sep) (c # cs) = sep")
    case True
    obtain p ps where ps: "split_from sep [] (drop (length sep) (c # cs)) = p # ps"
      using split_from_nonempty [of sep "[]" "drop (length sep) (c # cs)"]
      by (cases "split_from sep [] (drop (length sep) (c # cs))") auto
    have "join sep (rev cur # p # ps) = rev cur @ sep @ join sep (p # ps)"
      by simp
    also have "join sep (p # ps) = drop (length sep) (c # cs)"
      using "2.IH"(1) [OF True] ps by simp
    also have "sep @ drop (length sep) (c # cs) = c # cs"
      using True by (metis append_take_drop_id)
    finally show ?thesis
      using True ps by simp
  next
    case False
    then show ?thesis
      using "2.IH"(2) by auto
  qed
qed

lemma join_split: "join sep (split s sep) = s"
  by (simp add: split_def join_split_from)

lemma accumulate_prefix:
  assumes "cur \<le> mx"
  shows "\<exists>k \<le> length parts.
           accumulate count mx parts acc cur = acc @ take k parts
         \<and> cur + sum_list (map count (take k parts)) \<le> mx
         \<and> (k < length parts \<longrightarrow> mx < cur + sum_list (map count (take (Suc k) parts)))"
  using assms
proof (induction parts arbitrary: acc cur)
  case Nil
  then show ?case by simp
next
  case (Cons p ps)
  show ?case
  proof (cases "cur + count p \<le> mx")
    case True
    from Cons.IH [OF True, of "acc @ [p]"]
    obtain k where k: "k \<le> length ps"
      "accumulate count mx ps (acc @ [p]) (cur + count p) = (acc @ [p]) @ take k ps"
      "cur + count p + sum_list (map count (take k ps)) \<le> mx"
      "k < length ps \<longrightarrow> mx < cur + count p + sum_list (map count (take (Suc k) ps))"
      by blast
    show ?thesis
      by (rule exI [of _ "Suc k"]) (use True k in \<open>simp add: Let_def add.assoc\<close>)
  next
    case False
    show ?thesis
      by (rule exI [of _ 0]) (use False Cons.prems in \<open>simp add: Let_def\<close>)
  qed
qed

lemma prefix_sum_mono:
  "j \<le> k \<Longrightarrow> sum_list (map (count :: 'a \<Rightarrow> nat) (take j xs)) \<le> sum_list (map count (take k xs))"
proof -
  assume "j \<le> k"
  then have "take k xs = take j xs @ take (k - j) (drop j xs)"
    by (metis le_add_diff_inverse take_add)
  then show ?thesis by simp
qed

lemma greedy_unique:
  fixes count :: "'a \<Rightarrow> nat"
  assumes "sum_list (map count (take j xs)) \<le> mx" "j < length xs \<longrightarrow> mx < sum_list (map count (take (Suc j) xs))"
      and "sum_list (map count (take k xs)) \<le> mx" "k < length xs \<longrightarrow> mx < sum_list (map count (take (Suc k) xs))"
      and "j \<le> length xs" "k \<le> length xs"
  shows "j = k"
proof (rule ccontr)
  assume "j \<noteq> k"
  then consider "j < k" | "k < j" by linarith
  then show False
  proof cases
    case 1
    then have "sum_list (map count (take (Suc j) xs)) \<le> sum_list (map count (take k xs))"
      by (intro prefix_sum_mono) simp
    then show False using assms 1 by simp
  next
    case 2
    then have "sum_list (map count (take (Suc k) xs)) \<le> sum_list (map count (take j xs))"
      by (intro prefix_sum_mono) simp
    then show False using assms 2 by simp
  qed
qed

text \<open>
  Claim C5. \<open>_truncate_context\<close> returns the context unchanged when its token count is
  within the budget. Otherwise the result is the separator-join of the first \<open>k\<close> units
  of the context split at the separator, for the \<open>k\<close> of the greedy loop: the first \<open>k\<close>
  units fit the budget together and, unless all units were kept, unit \<open>k\<close> would exceed
  it. So whenever the first \<open>k\<close> units fit and the next does not, exactly the first \<open>k\<close>
  units are returned (the first 4 of 10, say), and never a part of a unit.
\<close>

theorem C5_truncate_context:
  "(count_tokens tokenizer context \<le> max_tokens \<longrightarrow>
      truncate_context tokenizer context max_tokens = context)
   \<and> (max_tokens < count_tokens tokenizer context \<longrightarrow>
        (\<exists>k \<le> length (split context separator).
            truncate_context tokenizer context max_tokens
              = join separator (take k (split context separator))
          \<and> sum_list (map (count_tokens tokenizer) (take k (split context separator))) \<le> max_tokens
          \<and> (k < length (split context separator) \<longrightarrow>
                max_tokens < sum_list (map (count_tokens tokenizer)
                                         (take (Suc k) (split context separator)))))
      \<and> (\<forall>k < length (split context separator).
            sum_list (map (count_tokens tokenizer) (take k (split context separator))) \<le> max_tokens
          \<and> max_tokens < sum_list (map (count_tokens tokenizer)
                                      (take (Suc k) (split context separator)))
          \<longrightarrow> truncate_context tokenizer context max_tokens
                = join separator (take k (split context separator))))"
proof -
  let ?parts = "split context separator"
  let ?count = "count_tokens tokenizer"
  obtain k where k: "k \<le> length ?parts"
      "accumulate ?count max_tokens ?parts [] 0 = take k ?parts"
      "sum_list (map ?count (take k ?parts)) \<le> max_tokens"
      "k < length ?parts \<longrightarrow> max_tokens < sum_list (map ?count (take (Suc k) ?parts))"
    using accumulate_prefix [of 0 max_tokens ?parts ?count "[]"] by auto
  have unique: "j = k"
    if "j < length ?parts" "sum_list (map ?count (take j ?parts)) \<le> max_tokens"
       "max_tokens < sum_list (map ?count (take (Suc j) ?parts))" for j
    using greedy_unique [of ?count j ?parts max_tokens k] that k by simp
  show ?thesis
  proof (intro conjI impI allI)
    assume "count_tokens tokenizer context \<le> max_tokens"
    then show "truncate_context tokenizer context max_tokens = context"
      by (simp add: truncate_context_def)
  next
    assume "max_tokens < count_tokens tokenizer context"
    then have "truncate_context tokenizer context max_tokens = join separator (take k ?parts)"
      by (simp add: truncate_context_def k)
    then show "\<exists>k \<le> length ?parts.
            truncate_context tokenizer context max_tokens = join separator (take k ?parts)
          \<and> sum_list (map ?count (take k ?parts)) \<le> max_tokens
          \<and> (k < length ?parts \<longrightarrow>
                max_tokens < sum_list (map ?count (take (Suc k) ?parts)))"
      using k by blast
  next
    fix j
    assume over: "max_tokens < count_tokens tokenizer context"
      and j: "j < length ?parts"
         "sum_list (map ?count (take j ?parts)) \<le> max_tokens
          \<and> max_tokens < sum_list (map ?count (take (Suc j) ?parts))"
    have "j = k" using unique j by blast
    then show "truncate_context tokenizer context max_tokens = join separator (take j ?parts)"
      using over by (simp add: truncate_context_def k)
  qed
qed

lemma unit_context_split:
  "split unit_context separator = [''u0'', ''u1'', ''u2'', ''u3'', ''u4'', ''u5'', ''u6'', ''u7'', ''u8'', ''u9'']"
  by (simp add: unit_context_def split_def separator_def)

theorem C5_truncate_context_witness:
  "truncate_context char_tokenizer unit_context 9 = join separator [''u0'', ''u1'', ''u2'', ''u3'']"
proof -
  have over: "9 < count_tokens char_tokenizer unit_context"
    by (simp add: count_tokens_def char_tokenizer_def unit_context_def separator_def)
  have fit: "sum_list (map (count_tokens char_tokenizer) (take 4 (split unit_context separator))) \<le> 9
      \<and> 9 < sum_list (map (count_tokens char_tokenizer) (take (Suc 4) (split unit_context separator)))"
    by (simp add: unit_context_split count_tokens_def char_tokenizer_def)
  have len: "4 < length (split unit_context separator)"
    by (simp add: unit_context_split)
  have "\<forall>k < length (split unit_context separator).
            sum_list (map (count_tokens char_tokenizer) (take k (split unit_context separator))) \<le> 9
          \<and> 9 < sum_list (map (count_tokens char_tokenizer)
                                      (take (Suc k) (split unit_context separator)))
          \<longrightarrow> truncate_context char_tokenizer unit_context 9
                = join separator (take k (split unit_context separator))"
    using C5_truncate_context [of char_tokenizer unit_context 9] over by blast
  then have "truncate_context char_tokenizer unit_context 9
                = join separator (take 4 (split unit_context separator))"
    using len fit by blast
  then show ?thesis
    by (simp add: unit_context_split)
qed

section \<open>The retriever\<close>

lemma fold_process_entry:
  "fold (process_entry threshold docs metas dists) idx (rd, cp, tr) =
     (rd @ map (entry_at docs metas dists) (filter (\<lambda>i. threshold \<le> score_at dists i) idx),
      cp @ map (\<lambda>i. context_part (entry_at docs metas dists i))
             (filter (\<lambda>i. threshold \<le> score_at dists i) idx),
      tr + sum_list (map (score_at dists) (filter (\<lambda>i. threshold \<le> score_at dists i) idx)))"
  by (induction idx arbitrary: rd cp tr)
     (simp_all add: process_entry_def entry_at_def score_at_def Let_def)

lemma filter_pass_kept:
  "filter_pass threshold docs metas dists (rd, cp, tr) =
     (rd @ map (entry_at docs metas dists) (kept threshold docs dists),
      cp @ map (\<lambda>i. context_part (entry_at docs metas dists i)) (kept threshold docs dists),
      tr + sum_list (map (score_at dists) (kept threshold docs dists)))"
  by (simp add: filter_pass_def kept_def fold_process_entry)

lemma context_part_nonempty: "context_part d \<noteq> []"
  by (simp add: context_part_def)

lemma join_nonempty: "ps \<noteq> [] \<Longrightarrow> hd ps \<noteq> [] \<Longrightarrow> join sep ps \<noteq> []"
  by (induction sep ps rule: join.induct) auto

lemma retrieve_context_answered:
  assumes "coll_count c \<noteq> 0"
      and "coll_query c query (min MAX_RETRIEVED_DOCS (coll_count c)) = Inr results"
      and "documents results = Some (docs # rest)" "docs \<noteq> []"
  shows "retrieve_context configured (Some c) query =
     (let metas = first_or_empty (metadatas results);
          dists = first_or_empty (distances results);
          keep = final_kept configured docs dists
      in (join separator (map (\<lambda>i. context_part (entry_at docs metas dists i)) keep),
          map (entry_at docs metas dists) keep,
          if keep \<noteq> [] then sum_list (map (score_at dists) keep) / real (length keep) else 0))"
  using assms
  by (simp add: retrieve_context_def Let_def filter_pass_kept final_kept_def)

text \<open>
  Claim C2. When the store answers the query with at least one document, the candidates
  returned are those the filter keeps at the effective threshold, unless it keeps none
  and the effective threshold exceeds 0.1: then they are those the filter keeps, over
  all returned entries, at threshold 0.1. Consequently, whenever some returned entry has
  a similarity above 0.1, the context returned is not empty.
\<close>

theorem C2_adaptive_relaxation:
  fixes results :: query_result
  defines "dists \<equiv> first_or_empty (distances results)"
      and "metas \<equiv> first_or_empty (metadatas results)"
  assumes count: "coll_count c \<noteq> 0"
      and answer: "coll_query c query (min MAX_RETRIEVED_DOCS (coll_count c)) = Inr results"
      and docs: "documents results = Some (docs # rest)"
  shows "fst (snd (retrieve_context configured (Some c) query)) =
           map (entry_at docs metas dists)
             (if kept (effective_threshold configured) docs dists = []
                 \<and> 1 / 10 < effective_threshold configured
              then kept (1 / 10) docs dists
              else kept (effective_threshold configured) docs dists)
       \<and> ((\<exists>i < length docs. 1 / 10 < score_at dists i) \<longrightarrow>
             fst (retrieve_context configured (Some c) query) \<noteq> [])"
proof (cases "docs = []")
  case True
  have "retrieve_context configured (Some c) query = ([], [], 0)"
    using count answer docs True by (simp add: retrieve_context_def)
  then show ?thesis
    using True by (simp add: kept_def)
next
  case False
  have ans: "retrieve_context configured (Some c) query =
      (join separator (map (\<lambda>i. context_part (entry_at docs metas dists i))
                         (final_kept configured docs dists)),
       map (entry_at docs metas dists) (final_kept configured docs dists),
       if final_kept configured docs dists \<noteq> []
       then sum_list (map (score_at dists) (final_kept configured docs dists))
              / real (length (final_kept configured docs dists))
       else 0)"
    using retrieve_context_answered [OF count answer docs False, of configured]
    by (simp add: Let_def dists_def metas_def)
  have first: "fst (snd (retrieve_context configured (Some c) query)) =
           map (entry_at docs metas dists)
             (if kept (effective_threshold configured) docs dists = []
                 \<and> 1 / 10 < effective_threshold configured
              then kept (1 / 10) docs dists
              else kept (effective_threshold configured) docs dists)"
    unfolding ans by (simp add: final_kept_def)
  have second: "fst (retrieve_context configured (Some c) query) \<noteq> []"
    if ex: "\<exists>i < length docs. 1 / 10 < score_at dists i"
  proof -
    obtain i where i: "i < length docs" "1 / 10 < score_at dists i"
      using ex by blast
    have in10: "i \<in> set (kept (1 / 10) docs dists)"
      using i by (simp add: kept_def)
    have keep: "final_kept configured docs dists \<noteq> []"
    proof (cases "kept (effective_threshold configured) docs dists = []")
      case True
      then have "i \<notin> set (kept (effective_threshold configured) docs dists)"
        by simp
      then have "\<not> effective_threshold configured \<le> score_at dists i"
        using i(1) by (simp add: kept_def)
      then have "1 / 10 < effective_threshold configured"
        using i(2) by linarith
      then have "final_kept configured docs dists = kept (1 / 10) docs dists"
        using True by (simp add: final_kept_def)
      then show ?thesis
        using in10 by auto
    next
      case False
      then show ?thesis
        by (simp add: final_kept_def)
    qed
    have "map (\<lambda>i. context_part (entry_at docs metas dists i)) (final_kept configured docs dists) \<noteq> []"
      using keep by simp
    moreover have "hd (map (\<lambda>i. context_part (entry_at docs metas dists i))
                     (final_kept configured docs dists)) \<noteq> []"
      using keep by (simp add: hd_map context_part_nonempty)
    ultimately have "join separator (map (\<lambda>i. context_part (entry_at docs metas dists i))
                 (final_kept configured docs dists)) \<noteq> []"
      by (rule join_nonempty)
    then show ?thesis
      unfolding ans by simp
  qed
  show ?thesis
    using first second by blast
qed

theorem C2_adaptive_relaxation_witness:
  "fst (retrieve_context (Some (3 / 10)) (Some weak_collection) ''fees'') \<noteq> []"
proof -
  have "\<exists>i < length [''No fees.'']. 1 / 10 < score_at (first_or_empty (Some [[6 / 5 :: real]])) i"
    by (rule exI [of _ 0]) (simp add: score_at_def first_or_empty_def distance_at_def similarity_def)
  then show ?thesis
    using C2_adaptive_relaxation [of weak_collection "''fees''"
        "\<lparr>documents = Some [[''No fees.'']], metadatas = Some [[fees_metadata]],
          distances = Some [[6 / 5]]\<rparr>" "[''No fees.'']" "[]" "Some (3 / 10)"]
    by (simp add: weak_collection_def)
qed





text \<open>
  Outside that contract: a reply that has a document and no distance for it. Line 225
  then takes the distance 1.0, the similarity is 1/3, and at the configured threshold
  0.3 the document is a candidate.
\<close>

lemma missing_distance_default:
  "retrieve_context (Some (3 / 10)) (Some bare_collection) ''fees''
     = (''[Source: Unknown]\<newline>No fees.\<newline>'',
        [\<lparr>content = ''No fees.'', metadata = [], similarity_score = 1 / 3,
          source_url = MStr [], title = MStr ''Unknown''\<rparr>],
        1 / 3)"
  by (simp add: retrieve_context_def bare_collection_def MAX_RETRIEVED_DOCS_def
      effective_threshold_def get_default_def DEFAULT_SIMILARITY_THRESHOLD_def filter_pass_def
      process_entry_def make_doc_info_def first_or_empty_def distance_at_def similarity_def
      dict_get_def context_part_def separator_def Let_def)

section \<open>The chunker\<close>

lemma find_rev_upt_None:
  "List.find P (rev [a ..< b]) = None \<longleftrightarrow> (\<forall>i. a \<le> i \<and> i < b \<longrightarrow> \<not> P i)"
  by (auto simp: find_None_iff)

lemma find_rev_upt_Some:
  "List.find P (rev [a ..< b]) = Some i \<Longrightarrow>
     a \<le> i \<and> i < b \<and> P i \<and> (\<forall>j. i < j \<and> j < b \<longrightarrow> \<not> P j)"
proof (induction b)
  case 0
  then show ?case by simp
next
  case (Suc b)
  show ?case
  proof (cases "a \<le> b")
    case True
    then have unfold: "rev [a ..< Suc b] = b # rev [a ..< b]" by simp
    show ?thesis
    proof (cases "P b")
      case True
      then have "i = b" using Suc.prems unfold by simp
      then show ?thesis using True \<open>a \<le> b\<close> by auto
    next
      case False
      then have "List.find P (rev [a ..< b]) = Some i" using Suc.prems unfold by simp
      then have "a \<le> i \<and> i < b \<and> P i \<and> (\<forall>j. i < j \<and> j < b \<longrightarrow> \<not> P j)"
        by (rule Suc.IH)
      then show ?thesis using False by (auto simp: less_Suc_eq)
    qed
  next
    case False
    then show ?thesis using Suc.prems by simp
  qed
qed

lemma search_bound_back:
  "search_bound chunk_size start = start + chunk_size - min 200 (chunk_size - chunk_size div 2)"
  unfolding search_bound_def by arith

lemma strip_id:
  assumes "s \<noteq> []" "\<not> isspace (hd s)" "\<not> isspace (last s)"
  shows "strip s = s"
proof -
  have "dropWhile isspace s = s"
    using assms(1,2) by (cases s) simp_all
  moreover have "dropWhile isspace (rev s) = rev s"
    using assms(1,3) by (cases "rev s") (simp_all add: last_rev [symmetric] hd_rev)
  ultimately show ?thesis
    by (simp add: strip_def)
qed

lemma is_boundary_char:
  "is_boundary txt i \<Longrightarrow> i < length txt \<and> txt ! i \<in> {CHR ''.'', CHR ''!'', CHR ''?''}"
proof -
  assume b: "is_boundary txt i"
  then have "take 2 (drop i txt) \<in> set sentence_ends"
    by (simp add: is_boundary_def slice_def)
  moreover have "\<forall>e \<in> set sentence_ends. length e = 2 \<and> hd e \<in> {CHR ''.'', CHR ''!'', CHR ''?''}"
    by (simp add: sentence_ends_def)
  ultimately have w: "length (take 2 (drop i txt)) = 2"
      "hd (take 2 (drop i txt)) \<in> {CHR ''.'', CHR ''!'', CHR ''?''}"
    by blast+
  have i: "i < length txt"
    using w(1) by (cases "i < length txt") auto
  have "hd (take 2 (drop i txt)) = txt ! i"
    using i by (simp add: hd_drop_conv_nth)
  then show ?thesis
    using w(2) i by simp
qed

lemma find_boundary_none:
  assumes "\<forall>i. search_bound chunk_size start < i \<and> i \<le> start + chunk_size \<longrightarrow> \<not> is_boundary txt i"
  shows "find_boundary chunk_size txt start = start + chunk_size"
proof -
  have "List.find (is_boundary txt)
          (rev [Suc (search_bound chunk_size start) ..< Suc (start + chunk_size)]) = None"
    using assms by (simp only: find_rev_upt_None Suc_le_eq less_Suc_eq_le)
  then show ?thesis
    by (simp add: find_boundary_def Let_def del: upt_Suc)
qed

lemma far_boundary_nth:
  "702 \<le> i \<Longrightarrow> i < 1102 \<Longrightarrow> far_boundary_content ! i = CHR ''b''"
  by (simp add: far_boundary_content_def nth_append)

lemma far_boundary_cut: "find_boundary CHUNK_SIZE far_boundary_content 0 = 1000"
proof -
  have "\<not> is_boundary far_boundary_content i"
    if "search_bound CHUNK_SIZE 0 < i" "i \<le> 0 + CHUNK_SIZE" for i
  proof
    assume "is_boundary far_boundary_content i"
    then have "far_boundary_content ! i \<in> {CHR ''.'', CHR ''!'', CHR ''?''}"
      using is_boundary_char by blast
    moreover have "far_boundary_content ! i = CHR ''b''"
      using that by (intro far_boundary_nth) (simp_all add: search_bound_def CHUNK_SIZE_def)
    ultimately show False by simp
  qed
  then show ?thesis
    using find_boundary_none [of CHUNK_SIZE 0 far_boundary_content]
    by (simp add: CHUNK_SIZE_def)
qed

lemma far_boundary_chunks:
  "chunk_content far_boundary_content =
     [replicate 700 (CHR ''a'') @ ''. '' @ replicate 298 (CHR ''b''), replicate 302 (CHR ''b'')]"
proof -
  define c1 where "c1 = replicate 700 (CHR ''a'') @ ''. '' @ replicate 298 (CHR ''b'')"
  define c2 where "c2 = replicate 302 (CHR ''b'')"
  have len: "length far_boundary_content = 1102"
    by (simp add: far_boundary_content_def)
  have s1: "slice far_boundary_content 0 1000 = c1"
    by (simp add: slice_def far_boundary_content_def c1_def)
  have s2: "slice far_boundary_content 800 1800 = c2"
    by (simp add: slice_def far_boundary_content_def c2_def)
  have t1: "strip c1 = c1"
    by (rule strip_id) (simp_all add: c1_def isspace_def hd_append)
  have t2: "strip c2 = c2"
    by (rule strip_id) (simp_all add: c2_def isspace_def)
  have l: "length c1 = 1000" "length c2 = 302"
    by (simp_all add: c1_def c2_def)
  have cut2: "find_boundary CHUNK_SIZE far_boundary_content 800 = 1800"
    by (simp add: find_boundary_def len CHUNK_SIZE_def)
  have second: "chunk_loop far_boundary_content 800 [c1] = [c1, c2]"
    using l by (subst chunk_loop.simps) (auto simp add: cut2 s2 t2 len Let_def CHUNK_OVERLAP_def)
  have first: "chunk_loop far_boundary_content 0 [] = chunk_loop far_boundary_content 800 [c1]"
    using l by (subst chunk_loop.simps) (auto simp add: far_boundary_cut s1 t1 len Let_def CHUNK_OVERLAP_def)
  show ?thesis
    by (simp add: chunk_content_def first second len CHUNK_SIZE_def) (simp add: c1_def c2_def)
qed

text \<open>
  Claim C8, as stated, fails: with the chunk size 1000 of the configuration, a content
  longer than the chunk size whose only sentence boundary lies 300 characters before the
  nominal cut, within \<open>chunk_size/2 = 500\<close> of it, is cut at the nominal boundary: the
  first chunk is the first 1000 characters.
\<close>

theorem C8_counterexample:
  "CHUNK_SIZE < length far_boundary_content
   \<and> is_boundary far_boundary_content 700
   \<and> CHUNK_SIZE - 700 \<le> CHUNK_SIZE div 2
   \<and> find_boundary CHUNK_SIZE far_boundary_content 0 = CHUNK_SIZE
   \<and> chunk_content far_boundary_content =
       [replicate 700 (CHR ''a'') @ ''. '' @ replicate 298 (CHR ''b''), replicate 302 (CHR ''b'')]"
proof -
  have "is_boundary far_boundary_content 700"
    by (simp add: is_boundary_def slice_def far_boundary_content_def sentence_ends_def)
  moreover have "CHUNK_SIZE < length far_boundary_content"
    by (simp add: CHUNK_SIZE_def far_boundary_content_def)
  moreover have "CHUNK_SIZE - 700 \<le> CHUNK_SIZE div 2"
    by (simp add: CHUNK_SIZE_def)
  moreover have "find_boundary CHUNK_SIZE far_boundary_content 0 = CHUNK_SIZE"
    using far_boundary_cut by (simp add: CHUNK_SIZE_def)
  ultimately show ?thesis
    using far_boundary_chunks by blast
qed

text \<open>
  Claim C8, amended. The backward search stops above
  \<open>max(start + chunk_size - 200, start + chunk_size // 2)\<close>, that is it reaches fewer than
  \<open>min(200, chunk_size - chunk_size // 2)\<close> characters back from the nominal cut, fewer
  than 200 with the configured chunk size. When the nominal cut is not inside the
  content the cut is the nominal one. Otherwise, if one of the windows \<open>". "\<close>, \<open>"! "\<close>,
  \<open>"? "\<close>, a full stop before a newline, starts at a position in that range, the cut is placed just after the
  punctuation of the one nearest to the nominal cut, and else at the nominal boundary.
\<close>

theorem C8_boundary_search:
  "search_bound chunk_size start = start + chunk_size - min 200 (chunk_size - chunk_size div 2)
   \<and> search_bound CHUNK_SIZE start = start + CHUNK_SIZE - 200
   \<and> (length txt \<le> start + chunk_size \<longrightarrow>
        find_boundary chunk_size txt start = start + chunk_size)
   \<and> (start + chunk_size < length txt \<longrightarrow>
        (if \<exists>i. search_bound chunk_size start < i \<and> i \<le> start + chunk_size \<and> is_boundary txt i
         then \<exists>i. search_bound chunk_size start < i \<and> i \<le> start + chunk_size
                \<and> is_boundary txt i
                \<and> (\<forall>j. i < j \<and> j \<le> start + chunk_size \<longrightarrow> \<not> is_boundary txt j)
                \<and> find_boundary chunk_size txt start = i + 1
         else find_boundary chunk_size txt start = start + chunk_size))"
proof (intro conjI impI)
  show "search_bound chunk_size start = start + chunk_size - min 200 (chunk_size - chunk_size div 2)"
    by (rule search_bound_back)
  show "search_bound CHUNK_SIZE start = start + CHUNK_SIZE - 200"
    by (simp add: search_bound_def CHUNK_SIZE_def)
  show "find_boundary chunk_size txt start = start + chunk_size"
    if "length txt \<le> start + chunk_size"
    using that by (simp add: find_boundary_def)
next
  assume inside: "start + chunk_size < length txt"
  let ?range = "rev [Suc (search_bound chunk_size start) ..< Suc (start + chunk_size)]"
  show "if \<exists>i. search_bound chunk_size start < i \<and> i \<le> start + chunk_size \<and> is_boundary txt i
         then \<exists>i. search_bound chunk_size start < i \<and> i \<le> start + chunk_size
                \<and> is_boundary txt i
                \<and> (\<forall>j. i < j \<and> j \<le> start + chunk_size \<longrightarrow> \<not> is_boundary txt j)
                \<and> find_boundary chunk_size txt start = i + 1
         else find_boundary chunk_size txt start = start + chunk_size"
  proof (cases "List.find (is_boundary txt) ?range")
    case None
    then have "\<forall>i. Suc (search_bound chunk_size start) \<le> i \<and> i < Suc (start + chunk_size)
                 \<longrightarrow> \<not> is_boundary txt i"
      by (simp only: find_rev_upt_None)
    then have none: "\<not> (\<exists>i. search_bound chunk_size start < i \<and> i \<le> start + chunk_size
                   \<and> is_boundary txt i)"
      by (auto simp: Suc_le_eq less_Suc_eq_le)
    have "find_boundary chunk_size txt start = start + chunk_size"
      using None inside by (simp add: find_boundary_def)
    then show ?thesis
      by (simp only: none if_False)
  next
    case (Some i)
    have "Suc (search_bound chunk_size start) \<le> i \<and> i < Suc (start + chunk_size)
          \<and> is_boundary txt i
          \<and> (\<forall>j. i < j \<and> j < Suc (start + chunk_size) \<longrightarrow> \<not> is_boundary txt j)"
      using Some by (rule find_rev_upt_Some)
    then have i: "search_bound chunk_size start < i" "i \<le> start + chunk_size"
        "is_boundary txt i"
        "\<forall>j. i < j \<and> j \<le> start + chunk_size \<longrightarrow> \<not> is_boundary txt j"
      by (auto simp: Suc_le_eq less_Suc_eq_le)
    have cut: "find_boundary chunk_size txt start = i + 1"
      using Some inside by (simp add: find_boundary_def)
    have some: "\<exists>i. search_bound chunk_size start < i \<and> i \<le> start + chunk_size
                   \<and> is_boundary txt i"
      using i by blast
    have "\<exists>i. search_bound chunk_size start < i \<and> i \<le> start + chunk_size
                \<and> is_boundary txt i
                \<and> (\<forall>j. i < j \<and> j \<le> start + chunk_size \<longrightarrow> \<not> is_boundary txt j)
                \<and> find_boundary chunk_size txt start = i + 1"
      using i cut by blast
    then show ?thesis
      by (simp only: some if_True)
  qed
qed

lemma near_boundary_only: "is_boundary near_boundary_content i \<Longrightarrow> i = 900"
proof -
  assume "is_boundary near_boundary_content i"
  then have "i < length near_boundary_content"
    and "near_boundary_content ! i \<in> {CHR ''.'', CHR ''!'', CHR ''?''}"
    using is_boundary_char by blast+
  then show ?thesis
    by (auto simp: near_boundary_content_def nth_append nth_Cons' split: if_splits)
qed

theorem C8_boundary_search_witness:
  "find_boundary CHUNK_SIZE near_boundary_content 0 = 901"
proof -
  have at: "is_boundary near_boundary_content 900"
    by (simp add: is_boundary_def slice_def near_boundary_content_def sentence_ends_def)
  have inside: "0 + CHUNK_SIZE < length near_boundary_content"
    by (simp add: CHUNK_SIZE_def near_boundary_content_def)
  have some: "\<exists>i. search_bound CHUNK_SIZE 0 < i \<and> i \<le> 0 + CHUNK_SIZE
                  \<and> is_boundary near_boundary_content i"
    using at by (intro exI [of _ 900]) (simp add: search_bound_def CHUNK_SIZE_def)
  have "if \<exists>i. search_bound CHUNK_SIZE 0 < i \<and> i \<le> 0 + CHUNK_SIZE
                  \<and> is_boundary near_boundary_content i
         then \<exists>i. search_bound CHUNK_SIZE 0 < i \<and> i \<le> 0 + CHUNK_SIZE
                \<and> is_boundary near_boundary_content i
                \<and> (\<forall>j. i < j \<and> j \<le> 0 + CHUNK_SIZE \<longrightarrow> \<not> is_boundary near_boundary_content j)
                \<and> find_boundary CHUNK_SIZE near_boundary_content 0 = i + 1
         else find_boundary CHUNK_SIZE near_boundary_content 0 = 0 + CHUNK_SIZE"
    using C8_boundary_search [of CHUNK_SIZE 0 near_boundary_content] inside by blast
  then obtain i where "is_boundary near_boundary_content i"
      "find_boundary CHUNK_SIZE near_boundary_content 0 = i + 1"
    by (simp only: some if_True) blast
  then show ?thesis
    using near_boundary_only [of i] by simp
qed

lemma strip_prefix: "\<exists>w. dropWhile isspace s = strip s @ w"
proof -
  let ?t = "dropWhile isspace s"
  have "rev ?t = takeWhile isspace (rev ?t) @ dropWhile isspace (rev ?t)"
    by simp
  then have "?t = rev (dropWhile isspace (rev ?t)) @ rev (takeWhile isspace (rev ?t))"
    by (metis rev_append rev_rev_ident)
  then show ?thesis
    by (auto simp: strip_def)
qed

lemma strip_hd: "strip s \<noteq> [] \<Longrightarrow> \<not> isspace (hd (strip s))"
proof -
  assume ne: "strip s \<noteq> []"
  obtain w where w: "dropWhile isspace s = strip s @ w"
    using strip_prefix by blast
  then have "dropWhile isspace s \<noteq> []" using ne by auto
  then have "\<not> isspace (hd (dropWhile isspace s))"
    by (rule hd_dropWhile)
  then show ?thesis
    using w ne by simp
qed

lemma strip_last: "strip s \<noteq> [] \<Longrightarrow> \<not> isspace (last (strip s))"
proof -
  assume ne: "strip s \<noteq> []"
  then have "dropWhile isspace (rev (dropWhile isspace s)) \<noteq> []"
    by (simp add: strip_def)
  then have "\<not> isspace (hd (dropWhile isspace (rev (dropWhile isspace s))))"
    by (rule hd_dropWhile)
  then show ?thesis
    using ne by (simp add: strip_def last_rev)
qed

lemma strip_idem: "strip (strip s) = strip s"
proof (cases "strip s = []")
  case True
  have "strip [] = []" by (simp add: strip_def)
  then show ?thesis by (simp only: True)
next
  case False
  then show ?thesis
    by (intro strip_id strip_hd strip_last)
qed

lemma chunk_loop_invariant:
  assumes "list_all (\<lambda>c. c \<noteq> [] \<and> strip c = c \<and> 100 < length c) chunks"
  shows "list_all (\<lambda>c. c \<noteq> [] \<and> strip c = c \<and> 100 < length c) (chunk_loop body start chunks)"
  using assms
proof (induction body start chunks rule: chunk_loop.induct)
  case (1 body start chunks)
  let ?end = "find_boundary CHUNK_SIZE body start"
  let ?chunk = "strip (slice body start ?end)"
  let ?next = "if ?chunk \<noteq> [] \<and> 100 < length ?chunk then chunks @ [?chunk] else chunks"
  have inv: "list_all (\<lambda>c. c \<noteq> [] \<and> strip c = c \<and> 100 < length c) ?next"
    using "1.prems" by (simp add: strip_idem)
  show ?case
  proof (cases "start < length body")
    case False
    then show ?thesis
      using "1.prems" by (subst chunk_loop.simps) simp
  next
    case True
    show ?thesis
    proof (cases "length body \<le> ?end - CHUNK_OVERLAP")
      case True
      then show ?thesis
        using inv \<open>start < length body\<close> by (subst chunk_loop.simps) (simp add: Let_def)
    next
      case False
      have "list_all (\<lambda>c. c \<noteq> [] \<and> strip c = c \<and> 100 < length c)
              (chunk_loop body (?end - CHUNK_OVERLAP) ?next)"
        using "1.IH" [OF True refl refl refl refl False inv] .
      then show ?thesis
        using False \<open>start < length body\<close> by (subst chunk_loop.simps) (simp add: Let_def)
    qed
  qed
qed

lemma uniform_cut: "find_boundary CHUNK_SIZE uniform_content start = start + CHUNK_SIZE"
proof (rule find_boundary_none, intro allI impI)
  fix i
  show "\<not> is_boundary uniform_content i"
  proof
    assume "is_boundary uniform_content i"
    then have "i < length uniform_content"
      and "uniform_content ! i \<in> {CHR ''.'', CHR ''!'', CHR ''?''}"
      using is_boundary_char by blast+
    then show False
      by (simp add: uniform_content_def)
  qed
qed

lemma uniform_strip:
  "0 < n \<Longrightarrow> strip (replicate n (CHR ''a'')) = replicate n (CHR ''a'')"
  by (rule strip_id) (simp_all add: isspace_def)

lemma uniform_slice:
  "slice uniform_content a b = replicate (min (b - a) (2000 - a)) (CHR ''a'')"
  by (simp add: slice_def uniform_content_def)

lemma uniform_length: "length uniform_content = 2000"
  by (simp add: uniform_content_def)

lemma uniform_cut_at: "find_boundary CHUNK_SIZE uniform_content start = start + 1000"
  by (simp add: uniform_cut) (simp add: CHUNK_SIZE_def)

lemma uniform_chunks:
  "chunk_content uniform_content =
     [replicate 1000 (CHR ''a''), replicate 1000 (CHR ''a''), replicate 400 (CHR ''a'')]"
proof -
  have third: "chunk_loop uniform_content 1600 [replicate 1000 (CHR ''a''), replicate 1000 (CHR ''a'')]
      = [replicate 1000 (CHR ''a''), replicate 1000 (CHR ''a''), replicate 400 (CHR ''a'')]"
    by (subst chunk_loop.simps)
       (simp add: uniform_cut_at uniform_slice uniform_length uniform_strip Let_def CHUNK_OVERLAP_def)
  have second: "chunk_loop uniform_content 800 [replicate 1000 (CHR ''a'')]
      = chunk_loop uniform_content 1600 [replicate 1000 (CHR ''a''), replicate 1000 (CHR ''a'')]"
    by (subst chunk_loop.simps)
       (simp add: uniform_cut_at uniform_slice uniform_length uniform_strip Let_def CHUNK_OVERLAP_def)
  have first: "chunk_loop uniform_content 0 []
      = chunk_loop uniform_content 800 [replicate 1000 (CHR ''a'')]"
    by (subst chunk_loop.simps)
       (simp add: uniform_cut_at uniform_slice uniform_length uniform_strip Let_def CHUNK_OVERLAP_def)
  have "CHUNK_SIZE < length uniform_content"
    by (simp add: CHUNK_SIZE_def uniform_content_def)
  then show ?thesis
    by (simp add: chunk_content_def first second third)
qed

text \<open>
  Claim C9, as stated, fails. A content no longer than the chunk size is returned as it
  is: the empty content gives one empty chunk, and a short content with surrounding
  spaces gives one chunk, untrimmed and below the floor of 100 characters. And nothing
  removes duplicates: 2000 equal letters give the same chunk of 1000 letters twice.
\<close>

theorem C9_counterexample:
  "chunk_content [] = [[]]
   \<and> chunk_content '' hi '' = ['' hi '']
   \<and> strip '' hi '' = ''hi''
   \<and> chunk_content uniform_content =
       [replicate 1000 (CHR ''a''), replicate 1000 (CHR ''a''), replicate 400 (CHR ''a'')]
   \<and> \<not> distinct (chunk_content uniform_content)"
proof -
  have "strip '' hi '' = ''hi''"
    by (simp add: strip_def isspace_def)
  then show ?thesis
    by (simp add: uniform_chunks) (simp add: chunk_content_def CHUNK_SIZE_def)
qed

text \<open>
  Claim C9, amended. A content no longer than the chunk size is returned unchanged as
  the only chunk. For a longer content, every chunk returned is trimmed of surrounding
  whitespace and longer than 100 characters, hence not empty: a trimmed piece of 100
  characters or fewer is dropped.
\<close>

theorem C9_chunks:
  "(length body \<le> CHUNK_SIZE \<longrightarrow> chunk_content body = [body])
   \<and> (CHUNK_SIZE < length body \<longrightarrow>
        list_all (\<lambda>c. c \<noteq> [] \<and> strip c = c \<and> 100 < length c) (chunk_content body))"
  using chunk_loop_invariant [of "[]" body 0]
  by (simp add: chunk_content_def)

theorem C9_chunks_witness:
  "CHUNK_SIZE < length uniform_content
   \<and> list_all (\<lambda>c. c \<noteq> [] \<and> strip c = c \<and> 100 < length c) (chunk_content uniform_content)"
  using C9_chunks [of uniform_content]
  by (simp add: CHUNK_SIZE_def uniform_content_def)

section \<open>The knowledge-base build\<close>

lemma doc_entries_short:
  assumes "doc_content d = Some c" "150 \<le> length c" "length c \<le> CHUNK_SIZE"
  shows "doc_entries i d = [(c, chunk_metadata d i 0 1, chunk_id i 0)]"
  using assms by (auto simp: doc_entries_def get_default_def chunk_content_def Let_def)

lemma all_entries_short:
  assumes "\<forall>d \<in> set ds. \<exists>c. doc_content d = Some c \<and> 150 \<le> length c \<and> length c \<le> CHUNK_SIZE"
  shows "map (\<lambda>e. snd (snd e)) (concat (map (\<lambda>(i, d). doc_entries i d) (enumerate k ds)))
           = map (\<lambda>i. chunk_id i 0) [k ..< k + length ds]"
  using assms
proof (induction ds arbitrary: k)
  case Nil
  then show ?case by simp
next
  case (Cons d ds)
  then obtain c where c: "doc_content d = Some c" "150 \<le> length c" "length c \<le> CHUNK_SIZE"
    by auto
  have rest: "map (\<lambda>e. snd (snd e)) (concat (map (\<lambda>(i, d). doc_entries i d) (enumerate (Suc k) ds)))
           = map (\<lambda>i. chunk_id i 0) [Suc k ..< Suc k + length ds]"
    using Cons.IH [of "Suc k"] Cons.prems by simp
  have range: "[k ..< k + length (d # ds)] = k # [Suc k ..< Suc k + length ds]"
    by (simp add: upt_conv_Cons del: upt_Suc)
  show ?case
    unfolding range using rest doc_entries_short [OF c, of k] by simp
qed

lemma short_docs_ids:
  "all_ids (replicate n short_doc) = map (\<lambda>i. chunk_id i 0) [0 ..< n]"
  using all_entries_short [of "replicate n short_doc" 0]
  by (simp add: all_ids_def all_entries_def short_doc_def CHUNK_SIZE_def)

lemma short_docs_length: "length (all_chunks (replicate n short_doc)) = n"
proof -
  have "length (all_chunks (replicate n short_doc)) = length (all_ids (replicate n short_doc))"
    by (simp add: all_chunks_def all_ids_def)
  then show ?thesis by (simp add: short_docs_ids)
qed

lemma batch_starts_51: "batch_starts 51 = [0, 50]"
  by (simp add: batch_starts_def batch_size_def upt_rec)

text \<open>
  Once \<open>batch_num\<close> is bound no exception leaves the loop over the batches; so when the
  insertion of the first batch returns, the build returns \<open>True\<close> whatever the later
  insertions do.
\<close>

lemma add_batches_bound:
  "fst (add_batches add cs ms ks starts (Some n) s) = None"
  by (induction starts arbitrary: n s) (auto split: prod.splits option.splits)

lemma build_after_first_insertion:
  assumes "scraped_data \<noteq> []"
      and "batch_starts (length (all_chunks scraped_data)) = i # rest"
      and "fst (add s (slice (all_chunks scraped_data) i (i + batch_size))
                     (slice (all_metadatas scraped_data) i (i + batch_size))
                     (slice (all_ids scraped_data) i (i + batch_size))) = None"
  shows "fst (build_knowledge_base add scraped_data s)"
proof -
  obtain s' where s': "add s (slice (all_chunks scraped_data) i (i + batch_size))
                     (slice (all_metadatas scraped_data) i (i + batch_size))
                     (slice (all_ids scraped_data) i (i + batch_size)) = (None, s')"
    using assms(3) by (metis prod.collapse)
  have "fst (add_batches add (all_chunks scraped_data) (all_metadatas scraped_data)
               (all_ids scraped_data) (i # rest) None s) = None"
    using s' add_batches_bound by simp
  then obtain s'' where "add_batches add (all_chunks scraped_data) (all_metadatas scraped_data)
               (all_ids scraped_data) (i # rest) None s = (None, s'')"
    by (metis prod.collapse)
  then show ?thesis
    using assms(1,2) by (simp add: build_knowledge_base_def)
qed

text \<open>
  Claim C3, on the code. With 51 chunks there are two batches. When the insertion of the
  first batch raises, the handler of line 166 reads \<open>batch_num\<close> before any assignment to
  it, the \<open>UnboundLocalError\<close> leaves the loop, the second batch is never attempted, and
  the build returns \<open>False\<close>. When it is the second batch whose insertion raises, the
  first batch stays inserted and the build returns \<open>True\<close>, as it does when nothing raises.
\<close>

theorem C3_first_batch_failure:
  "build_knowledge_base (probe_add [0]) (replicate 51 short_doc) \<lparr>calls = 0, inserted = []\<rparr>
     = (False, \<lparr>calls = 1, inserted = []\<rparr>)
   \<and> build_knowledge_base (probe_add [1]) (replicate 51 short_doc) \<lparr>calls = 0, inserted = []\<rparr>
     = (True, \<lparr>calls = 2, inserted = [map (\<lambda>i. chunk_id i 0) [0 ..< 50]]\<rparr>)
   \<and> build_knowledge_base (probe_add []) (replicate 51 short_doc) \<lparr>calls = 0, inserted = []\<rparr>
     = (True, \<lparr>calls = 2, inserted = [map (\<lambda>i. chunk_id i 0) [0 ..< 50], [chunk_id 50 0]]\<rparr>)"
proof -
  have first: "slice (map (\<lambda>i. chunk_id i 0) [0 ..< 51]) 0 batch_size
                 = map (\<lambda>i. chunk_id i 0) [0 ..< 50]"
    unfolding slice_def batch_size_def by (simp add: take_map del: upt_Suc)
  have second: "slice (map (\<lambda>i. chunk_id i 0) [0 ..< 51]) 50 (50 + batch_size) = [chunk_id 50 0]"
    unfolding slice_def batch_size_def by (simp add: drop_map del: upt_Suc)
  show ?thesis
    by (simp add: build_knowledge_base_def short_docs_ids short_docs_length batch_starts_51
        probe_add_def first second)
qed

lemma nat_of_str_of_nat: "nat_of_str (str_of_nat n) = n"
proof (induction n rule: str_of_nat.induct)
  case (1 n)
  show ?case
  proof (cases "n < 10")
    case True
    then show ?thesis
      by (subst str_of_nat.simps) (simp add: nat_of_str_def)
  next
    case False
    have "n mod 10 < 10" by simp
    then have digit: "of_char (char_of (48 + n mod 10) :: char) - 48 = n mod 10"
      by simp
    have "nat_of_str (str_of_nat n) = 10 * nat_of_str (str_of_nat (n div 10)) + n mod 10"
      using False digit by (subst str_of_nat.simps) (simp add: nat_of_str_def)
    then show ?thesis
      using "1.IH" [OF False] by simp
  qed
qed

lemma str_of_nat_inj: "str_of_nat m = str_of_nat n \<Longrightarrow> m = n"
  by (metis nat_of_str_of_nat)

lemma str_of_nat_digits: "c \<in> set (str_of_nat n) \<Longrightarrow> c \<noteq> CHR ''_''"
proof (induction n rule: str_of_nat.induct)
  case (1 n)
  have last: "char_of (48 + d) \<noteq> CHR ''_''" if "d < 10" for d :: nat
  proof
    assume "char_of (48 + d) = CHR ''_''"
    then have "of_char (char_of (48 + d) :: char) = (of_char (CHR ''_'') :: nat)"
      by simp
    then show False using that by simp
  qed
  show ?case
  proof (cases "n < 10")
    case True
    then show ?thesis
      using "1.prems" last [of n] by (subst (asm) str_of_nat.simps) auto
  next
    case False
    then show ?thesis
      using "1.prems" "1.IH" [OF False] last [of "n mod 10"]
      by (subst (asm) str_of_nat.simps) auto
  qed
qed

lemma chunk_id_inj:
  assumes "chunk_id i j = chunk_id i' j'"
  shows "i = i' \<and> j = j'"
proof -
  let ?P = "\<lambda>c. c \<noteq> CHR ''_''"
  have eq: "str_of_nat i @ ''_chunk_'' @ str_of_nat j = str_of_nat i' @ ''_chunk_'' @ str_of_nat j'"
    using assms by (simp add: chunk_id_def)
  have tw: "takeWhile ?P (str_of_nat n @ ''_chunk_'' @ str_of_nat m) = str_of_nat n" for n m
    using str_of_nat_digits [of _ n] by simp
  have "str_of_nat i = str_of_nat i'"
    using tw [of i j] tw [of i' j'] eq by simp
  moreover from this have "str_of_nat j = str_of_nat j'"
    using eq by simp
  ultimately show ?thesis
    using str_of_nat_inj by blast
qed

lemma map_enumerate_index:
  "map (\<lambda>(j, x). f j) (enumerate k xs) = map f [k ..< k + length xs]"
proof (induction xs arbitrary: k)
  case Nil
  then show ?case by simp
next
  case (Cons x xs)
  have "[k ..< k + length (x # xs)] = k # [Suc k ..< Suc k + length xs]"
    by (simp add: upt_conv_Cons del: upt_Suc)
  then show ?case
    using Cons.IH [of "Suc k"] by simp
qed

lemma entry_ids:
  "map (\<lambda>e. snd (snd e))
          (map (\<lambda>(chunk_idx, chunk). (chunk, chunk_metadata d i chunk_idx n, chunk_id i chunk_idx))
               (enumerate 0 cs))
        = map (chunk_id i) [0 ..< length cs]"
  using map_enumerate_index [of "chunk_id i" 0 cs]
  by (simp add: case_prod_unfold comp_def)

lemma doc_entries_ids:
  "map (\<lambda>e. snd (snd e)) (doc_entries i d) = map (chunk_id i) [0 ..< length (doc_chunks d)]"
proof (cases "get_default (doc_content d) [] = [] \<or> length (get_default (doc_content d) []) < 150")
  case True
  then show ?thesis
    by (simp add: doc_entries_def doc_chunks_def Let_def)
next
  case False
  then have "doc_entries i d =
      map (\<lambda>(chunk_idx, chunk).
             (chunk, chunk_metadata d i chunk_idx (length (doc_chunks d)), chunk_id i chunk_idx))
          (enumerate 0 (doc_chunks d))"
    by (simp add: doc_entries_def doc_chunks_def Let_def)
  then show ?thesis
    by (simp only: entry_ids)
qed

lemma entries_ids:
  "map (\<lambda>e. snd (snd e)) (concat (map (\<lambda>(i, d). doc_entries i d) (enumerate k ds)))
     = map (\<lambda>(i, j). chunk_id i j) (index_pairs k ds)"
proof (induction ds arbitrary: k)
  case Nil
  then show ?case by (simp add: index_pairs_def)
next
  case (Cons d ds)
  show ?case
    using Cons.IH [of "Suc k"] doc_entries_ids [of k d]
    by (simp add: index_pairs_def comp_def)
qed

lemma all_ids_pairs: "all_ids scraped_data = map (\<lambda>(i, j). chunk_id i j) (index_pairs 0 scraped_data)"
  by (simp add: all_ids_def all_entries_def entries_ids)

lemma index_pairs_lower: "(i, j) \<in> set (index_pairs k ds) \<Longrightarrow> k \<le> i"
proof (induction ds arbitrary: k)
  case Nil
  then show ?case by (simp add: index_pairs_def)
next
  case (Cons d ds)
  then have "i = k \<or> (i, j) \<in> set (index_pairs (Suc k) ds)"
    by (auto simp: index_pairs_def)
  then show ?case
    using Cons.IH [of "Suc k"] by auto
qed

lemma index_pairs_distinct: "distinct (index_pairs k ds)"
proof (induction ds arbitrary: k)
  case Nil
  then show ?case by (simp add: index_pairs_def)
next
  case (Cons d ds)
  have split: "index_pairs k (d # ds) =
      map (\<lambda>j. (k, j)) [0 ..< length (doc_chunks d)] @ index_pairs (Suc k) ds"
    by (simp add: index_pairs_def)
  have "distinct (map (\<lambda>j. (k, j)) [0 ..< length (doc_chunks d)])"
    by (simp add: distinct_map inj_on_def)
  moreover have "set (map (\<lambda>j. (k, j)) [0 ..< length (doc_chunks d)]) \<inter> set (index_pairs (Suc k) ds) = {}"
    using index_pairs_lower [of k _ "Suc k" ds] by auto
  ultimately show ?case
    unfolding split using Cons.IH [of "Suc k"] by simp
qed

lemma all_ids_distinct: "distinct (all_ids scraped_data)"
proof -
  have "inj_on (\<lambda>(i, j). chunk_id i j) (set (index_pairs 0 scraped_data))"
    using chunk_id_inj by (auto simp: inj_on_def)
  then show ?thesis
    unfolding all_ids_pairs using index_pairs_distinct by (simp add: distinct_map)
qed

lemma batches_prefix:
  "concat (map (\<lambda>i. slice xs i (i + b)) (map (\<lambda>k. k * b) [0 ..< m])) = take (m * b) xs"
proof (induction m)
  case 0
  then show ?case by simp
next
  case (Suc m)
  have "take (m * b) xs @ take b (drop (m * b) xs) = take (m * b + b) xs"
    by (simp add: take_add)
  then show ?case
    using Suc.IH by (simp add: slice_def add.commute)
qed

lemma batches_cover:
  "concat (map (\<lambda>i. slice xs i (i + batch_size)) (batch_starts (length xs))) = xs"
proof -
  have "length xs \<le> ((length xs + batch_size - 1) div batch_size) * batch_size"
    by (simp add: batch_size_def)
  then show ?thesis
    unfolding batch_starts_def batches_prefix by simp
qed

lemma zip_slice: "zip (slice xs a b) (slice ys a b) = slice (zip xs ys) a b"
  by (simp add: slice_def take_zip drop_zip)

lemma add_batches_upsert:
  "add_batches upsert cs ms ks starts batch_num s =
     (None, fold upsert_one
              (concat (map (\<lambda>i. slice (zip ks (zip cs ms)) i (i + batch_size)) starts)) s)"
  by (induction starts arbitrary: batch_num s) (simp_all add: upsert_def zip_slice)

lemma upsert_one_add:
  "upsert_one kv s ++ map_of (rev kvs) = s ++ map_of (rev (kv # kvs))"
  by (rule ext) (simp add: upsert_one_def map_add_def split: option.splits)

lemma fold_upsert: "fold upsert_one kvs s = s ++ map_of (rev kvs)"
proof (induction kvs arbitrary: s)
  case Nil
  then show ?case by simp
next
  case (Cons kv kvs)
  have "fold upsert_one (kv # kvs) s = fold upsert_one kvs (upsert_one kv s)"
    by simp
  also have "\<dots> = upsert_one kv s ++ map_of (rev kvs)"
    by (rule Cons.IH)
  also have "\<dots> = s ++ map_of (rev (kv # kvs))"
    by (rule upsert_one_add)
  finally show ?case .
qed

lemma map_add_twice: "(s ++ m) ++ m = s ++ m"
  by (rule ext) (simp add: map_add_def split: option.splits)

lemma entries_zip:
  "zip (all_ids scraped_data) (zip (all_chunks scraped_data) (all_metadatas scraped_data))
     = map (\<lambda>e. (snd (snd e), fst e, fst (snd e))) (all_entries scraped_data)"
  by (simp add: all_ids_def all_chunks_def all_metadatas_def zip_map_map zip_same_conv_map)

lemma build_upsert:
  "snd (build_knowledge_base upsert scraped_data s) =
     s ++ map_of (rev (map (\<lambda>e. (snd (snd e), fst e, fst (snd e))) (all_entries scraped_data)))"
proof (cases "scraped_data = []")
  case True
  then show ?thesis
    by (simp add: build_knowledge_base_def all_entries_def)
next
  case False
  let ?kvs = "map (\<lambda>e. (snd (snd e), fst e, fst (snd e))) (all_entries scraped_data)"
  have len: "length (all_chunks scraped_data) = length ?kvs"
    by (simp add: all_chunks_def)
  have "concat (map (\<lambda>i. slice ?kvs i (i + batch_size)) (batch_starts (length (all_chunks scraped_data))))
          = ?kvs"
    unfolding len by (rule batches_cover)
  then show ?thesis
    using False by (simp add: build_knowledge_base_def add_batches_upsert entries_zip fold_upsert)
qed

lemma build_upsert_dom:
  "dom (snd (build_knowledge_base upsert scraped_data s)) = dom s \<union> set (all_ids scraped_data)"
proof -
  have "fst ` set (map (\<lambda>e. (snd (snd e), fst e, fst (snd e))) (all_entries scraped_data))
          = set (all_ids scraped_data)"
    by (force simp: all_ids_def)
  then show ?thesis
    by (simp add: build_upsert dom_map_of_conv_image_fst Un_commute del: set_map)
qed

text \<open>
  Claim C7, on the store modelled from the spec. Building the knowledge base a second
  time from the same documents leaves the store as the first build left it, so its count
  is unchanged: every id is written again with the same entry. After a build the ids in
  the store are those it had and the ids of the chunks; these are the identifiers
  \<open>doc_<i>_chunk_<j>\<close> of the pairs (document index, chunk index), pairwise distinct, so
  a build into an empty store leaves as many entries as chunks.
\<close>

theorem C7_idempotent_build:
  "snd (build_knowledge_base upsert scraped_data (snd (build_knowledge_base upsert scraped_data s)))
     = snd (build_knowledge_base upsert scraped_data s)
   \<and> store_count (snd (build_knowledge_base upsert scraped_data
                          (snd (build_knowledge_base upsert scraped_data s))))
     = store_count (snd (build_knowledge_base upsert scraped_data s))
   \<and> dom (snd (build_knowledge_base upsert scraped_data s)) = dom s \<union> set (all_ids scraped_data)
   \<and> all_ids scraped_data = map (\<lambda>(i, j). chunk_id i j) (index_pairs 0 scraped_data)
   \<and> distinct (all_ids scraped_data)
   \<and> store_count (snd (build_knowledge_base upsert scraped_data Map.empty))
     = length (all_ids scraped_data)"
proof -
  have same: "snd (build_knowledge_base upsert scraped_data (snd (build_knowledge_base upsert scraped_data s)))
     = snd (build_knowledge_base upsert scraped_data s)"
    by (simp only: build_upsert map_add_twice)
  have "store_count (snd (build_knowledge_base upsert scraped_data Map.empty))
          = card (set (all_ids scraped_data))"
    by (simp add: store_count_def build_upsert_dom)
  then have count: "store_count (snd (build_knowledge_base upsert scraped_data Map.empty))
          = length (all_ids scraped_data)"
    using all_ids_distinct by (simp add: distinct_card)
  show ?thesis
    using same build_upsert_dom all_ids_pairs all_ids_distinct count by simp
qed

theorem C7_idempotent_build_witness:
  "store_count (snd (build_knowledge_base upsert (replicate 2 short_doc)
                       (snd (build_knowledge_base upsert (replicate 2 short_doc) Map.empty)))) = 2"
  using C7_idempotent_build [of "replicate 2 short_doc" Map.empty] short_docs_ids [of 2]
  by simp

end
